theory Spec2Isabelle
  imports Complex_Main "HOL-Library.AList"
begin

section \<open>JavaScript strings and the regular expressions of the source\<close>

text \<open>
  A JavaScript string is a sequence of code units. The model takes the code units
  U+0000 to U+00FF, one \<^typ>\<open>char\<close> each. A JavaScript number is a \<^typ>\<open>nat\<close>:
  the only numbers of the program are runs of decimal digits read by \<open>parseInt\<close>
  and the target version, and both are exact below \<open>2 ^ 53\<close>.
\<close>

text \<open>The class \<open>\d\<close>.\<close>

definition is_digit :: "char \<Rightarrow> bool" where
  "is_digit c = (c \<in> set ''0123456789'')"

text \<open>
  The class \<open>\s\<close>, which is also what \<open>trim\<close> removes: tab, line feed, vertical
  tab, form feed, carriage return, space and the no-break space U+00A0 (the other
  members are above U+00FF).
\<close>

definition is_space :: "char \<Rightarrow> bool" where
  "is_space c = (c \<in> set [CHR 0x09, CHR 0x0A, CHR 0x0B, CHR 0x0C, CHR 0x0D, CHR 0x20, CHR 0xA0])"

definition is_quote :: "char \<Rightarrow> bool" where
  "is_quote c = (c = CHR 0x27 \<or> c = CHR 0x22)"

text \<open>
  The \<open>i\<close> flag compares canonical forms. Every literal of the source's patterns is
  ASCII, and no other code unit has the canonical form of an ASCII one, so folding the
  ASCII letters decides the comparison.
\<close>

definition lower :: "char \<Rightarrow> char" where
  "lower c = (case map_of (zip ''ABCDEFGHIJKLMNOPQRSTUVWXYZ'' ''abcdefghijklmnopqrstuvwxyz'') c of
                Some d \<Rightarrow> d | None \<Rightarrow> c)"

text \<open>\<open>lit ci p s\<close>: the literal \<open>p\<close> at the start of \<open>s\<close>; the result is what follows it.\<close>

fun lit :: "bool \<Rightarrow> string \<Rightarrow> string \<Rightarrow> string option" where
  "lit ci [] s = Some s"
| "lit ci (p # ps) [] = None"
| "lit ci (p # ps) (c # cs) =
     (if (if ci then lower c = lower p else c = p) then lit ci ps cs else None)"

text \<open>An optional quote, \<open>['"]?\<close>: taken when it is there.\<close>

fun opt_quote :: "string \<Rightarrow> string" where
  "opt_quote [] = []"
| "opt_quote (c # cs) = (if is_quote c then cs else c # cs)"

text \<open>
  The result of a match, as \<open>String.prototype.match\<close> and \<open>replace\<close> see it: the text
  before the match, the matched text, the capture groups (\<open>None\<close> is \<open>undefined\<close>) and
  the text after the match.
\<close>

record rx_match =
  leftContext :: string
  matched :: string
  groups :: "string option list"
  rightContext :: string

text \<open>
  A pattern is modelled by its match at the start of a string: the capture groups and
  the text left over. In each pattern of the source a greedy run is followed by
  something outside its class (or by nothing that can fail), so the first attempt of
  the backtracking matcher is its only one: the run is \<open>takeWhile\<close>, what follows starts
  at \<open>dropWhile\<close>.
\<close>

type_synonym pattern = "string \<Rightarrow> (string option list \<times> string) option"

text \<open>\<open>(\d+)\<close> as the last element of a pattern.\<close>

definition digits1 :: "string \<Rightarrow> (string \<times> string) option" where
  "digits1 s = (if takeWhile is_digit s = [] then None
                else Some (takeWhile is_digit s, dropWhile is_digit s))"

text \<open>\<open>/(\d+)/\<close>\<close>

definition rx_int :: pattern where
  "rx_int s = (case digits1 s of None \<Rightarrow> None | Some (ds, r) \<Rightarrow> Some ([Some ds], r))"

text \<open>\<open>/^v?(\d+)/\<close>, tried at the start of the string only.\<close>

definition rx_nvm :: pattern where
  "rx_nvm s = rx_int (case s of [] \<Rightarrow> [] | c # cs \<Rightarrow> if c = CHR ''v'' then cs else c # cs)"

text \<open>
  \<open>(\d+)([^\s]*)?\<close>: when the second group would match the empty string its iteration
  is dropped and the group is \<open>undefined\<close>.
\<close>

definition rx_version_suffix :: pattern where
  "rx_version_suffix s =
     (case digits1 s of None \<Rightarrow> None
      | Some (ds, r) \<Rightarrow>
          let suffix = takeWhile (\<lambda>c. \<not> is_space c) r
          in Some ([Some ds, if suffix = [] then None else Some suffix],
                   dropWhile (\<lambda>c. \<not> is_space c) r))"

text \<open>\<open>/FROM\s+node:(\d+)([^\s]*)?/i\<close>\<close>

definition rx_from :: pattern where
  "rx_from s =
     (case lit True ''FROM'' s of None \<Rightarrow> None
      | Some r \<Rightarrow>
          if takeWhile is_space r = [] then None
          else (case lit True ''node:'' (dropWhile is_space r) of None \<Rightarrow> None
                | Some r' \<Rightarrow> rx_version_suffix r'))"

text \<open>\<open>/image:\s*node:(\d+)([^\s]*)?/i\<close>\<close>

definition rx_image :: pattern where
  "rx_image s =
     (case lit True ''image:'' s of None \<Rightarrow> None
      | Some r \<Rightarrow>
          (case lit True ''node:'' (dropWhile is_space r) of None \<Rightarrow> None
           | Some r' \<Rightarrow> rx_version_suffix r'))"

text \<open>\<open>\s*['"]?(\d+)['"]?\<close>, the tail of both workflow patterns.\<close>

definition rx_quoted_int :: pattern where
  "rx_quoted_int s =
     (case digits1 (opt_quote (dropWhile is_space s)) of None \<Rightarrow> None
      | Some (ds, r) \<Rightarrow> Some ([Some ds], opt_quote r))"

text \<open>\<open>/node-version:\s*['"]?(\d+)['"]?/i\<close>\<close>

definition rx_node_version :: pattern where
  "rx_node_version s =
     (case lit True ''node-version:'' s of None \<Rightarrow> None | Some r \<Rightarrow> rx_quoted_int r)"

text \<open>\<open>/NODE_VERSION:\s*['"]?(\d+)['"]?/i\<close>\<close>

definition rx_node_env :: pattern where
  "rx_node_env s =
     (case lit True ''NODE_VERSION:'' s of None \<Rightarrow> None | Some r \<Rightarrow> rx_quoted_int r)"

text \<open>\<open>/nodejs\s+(\d+)/\<close>\<close>

definition rx_nodejs :: pattern where
  "rx_nodejs s =
     (case lit False ''nodejs'' s of None \<Rightarrow> None
      | Some r \<Rightarrow>
          if takeWhile is_space r = [] then None
          else (case digits1 (dropWhile is_space r) of None \<Rightarrow> None
                | Some (ds, r') \<Rightarrow> Some ([Some ds], r')))"

text \<open>
  \<open>s.match(re)\<close> for a pattern without the \<open>g\<close> flag: the match at the leftmost
  position where the pattern matches, every position up to the end of the string
  being tried.
\<close>

definition match_here :: "pattern \<Rightarrow> string \<Rightarrow> rx_match option" where
  "match_here p s =
     (case p s of None \<Rightarrow> None
      | Some (gs, r) \<Rightarrow>
          Some \<lparr>leftContext = [], matched = take (length s - length r) s, groups = gs, rightContext = r\<rparr>)"

fun js_match :: "pattern \<Rightarrow> string \<Rightarrow> rx_match option" where
  "js_match p [] = match_here p []"
| "js_match p (c # cs) =
     (case match_here p (c # cs) of Some m \<Rightarrow> Some m
      | None \<Rightarrow> map_option (\<lambda>m. m\<lparr>leftContext := c # leftContext m\<rparr>) (js_match p cs))"

text \<open>\<open>match[i]\<close> for a capture group; \<open>match[i] || ""\<close> is \<open>group_or_empty\<close>.\<close>

definition group :: "rx_match \<Rightarrow> nat \<Rightarrow> string option" where
  "group m i = (if 1 \<le> i \<and> i \<le> length (groups m) then groups m ! (i - 1) else None)"

definition group_or_empty :: "rx_match \<Rightarrow> nat \<Rightarrow> string" where
  "group_or_empty m i = (case group m i of None \<Rightarrow> [] | Some g \<Rightarrow> g)"

text \<open>
  The replacement text of \<open>s.replace(re, template)\<close> for a template that is a string
  (GetSubstitution of ECMAScript): \<open>$$\<close> is a dollar, \<open>$&\<close> the matched text,
  \<open>$`\<close> the text before the match, \<open>$'\<close> the text after it, and \<open>$n\<close> or \<open>$nn\<close>
  the capture group of that number when the pattern has one (a two-digit number beyond
  the groups is read as one digit followed by a literal digit); any other dollar stands
  for itself. The patterns of the source have no named groups.
\<close>

definition digit_val :: "char \<Rightarrow> nat" where
  "digit_val c = of_char c - 48"

definition group_ref :: "rx_match \<Rightarrow> nat \<Rightarrow> string \<Rightarrow> string" where
  "group_ref m i ref =
     (if 1 \<le> i \<and> i \<le> length (groups m) then group_or_empty m i else ref)"

fun get_substitution :: "rx_match \<Rightarrow> string \<Rightarrow> string" where
  "get_substitution m [] = []"
| "get_substitution m [c] = [c]"
| "get_substitution m (c # d # t) =
     (if c \<noteq> CHR ''$'' then c # get_substitution m (d # t)
      else if d = CHR ''$'' then CHR ''$'' # get_substitution m t
      else if d = CHR ''&'' then matched m @ get_substitution m t
      else if d = CHR 0x60 then leftContext m @ get_substitution m t
      else if d = CHR 0x27 then rightContext m @ get_substitution m t
      else if is_digit d then
        (case t of
           e # t' \<Rightarrow>
             if is_digit e \<and> 10 * digit_val d + digit_val e \<le> length (groups m)
             then group_ref m (10 * digit_val d + digit_val e) [c, d, e] @ get_substitution m t'
             else group_ref m (digit_val d) [c, d] @ get_substitution m t
         | [] \<Rightarrow> group_ref m (digit_val d) [c, d])
      else c # get_substitution m (d # t))"

text \<open>\<open>s.replace(re, template)\<close> without the \<open>g\<close> flag: the first match is replaced.\<close>

definition js_replace :: "pattern \<Rightarrow> string \<Rightarrow> string \<Rightarrow> string" where
  "js_replace p template s =
     (case js_match p s of None \<Rightarrow> s
      | Some m \<Rightarrow> leftContext m @ get_substitution m template @ rightContext m)"

text \<open>
  With the \<open>g\<close> flag every match is replaced, the search going on where the last match
  ended. The fuel is the length of the string: a match of the source's patterns is never
  empty, so each round shortens what is left.
\<close>

fun replace_all_fuel :: "nat \<Rightarrow> pattern \<Rightarrow> string \<Rightarrow> string \<Rightarrow> string" where
  "replace_all_fuel 0 p template s = s"
| "replace_all_fuel (Suc n) p template s =
     (case js_match p s of None \<Rightarrow> s
      | Some m \<Rightarrow> leftContext m @ get_substitution m template @ replace_all_fuel n p template (rightContext m))"

definition js_replace_all :: "pattern \<Rightarrow> string \<Rightarrow> string \<Rightarrow> string" where
  "js_replace_all p template s = replace_all_fuel (length s) p template s"

text \<open>\<open>s.trim()\<close>\<close>

definition trim :: "string \<Rightarrow> string" where
  "trim s = rev (dropWhile is_space (rev (dropWhile is_space s)))"

text \<open>\<open>s.endsWith(x)\<close>\<close>

definition endsWith :: "string \<Rightarrow> string \<Rightarrow> bool" where
  "endsWith s x = (length x \<le> length s \<and> drop (length s - length x) s = x)"

text \<open>\<open>parseInt(ds, 10)\<close> on a capture of \<open>(\d+)\<close>, and \<open>n.toString()\<close>.\<close>

definition parseInt :: "string \<Rightarrow> nat" where
  "parseInt ds = foldl (\<lambda>n c. 10 * n + digit_val c) 0 (takeWhile is_digit ds)"

fun digit_char :: "nat \<Rightarrow> char" where
  "digit_char n = ''0123456789'' ! (n mod 10)"

function toString :: "nat \<Rightarrow> string" where
  "toString n = (if n < 10 then [digit_char n] else toString (n div 10) @ [digit_char n])"
  by pat_completeness auto
termination
  by (relation "measure id") auto

declare toString.simps [simp del]


section \<open>The platform: errors, JSON values, the file system, the clock\<close>

text \<open>What a \<open>throw\<close> carries; \<open>Message\<close> is an error text the program writes itself.\<close>

datatype failure = ENOENT | EISDIR | ENOTDIR | EACCES | SyntaxError | TypeError | Message string

definition bindE :: "'e + 'a \<Rightarrow> ('a \<Rightarrow> 'e + 'b) \<Rightarrow> 'e + 'b" where
  "bindE x f = (case x of Inl e \<Rightarrow> Inl e | Inr a \<Rightarrow> f a)"

text \<open>
  The values \<open>JSON.parse\<close> returns. An object is the list of its own properties, each
  key once.
\<close>

datatype json =
    JNull
  | JBool bool
  | JNumber rat
  | JString string
  | JArray "json list"
  | JObject "(string \<times> json) list"

text \<open>
  \<open>v.k\<close> for the keys the program reads, \<open>engines\<close> and \<open>node\<close>: an own property of
  an object, \<open>undefined\<close> (\<open>None\<close>) on every other value that is not \<open>null\<close>.
\<close>

fun get_prop :: "json \<Rightarrow> string \<Rightarrow> json option" where
  "get_prop (JObject kvs) k = map_of kvs k"
| "get_prop _ k = None"

text \<open>\<open>content?.engines?.node\<close>: \<open>?.\<close> stops at \<open>null\<close> and \<open>undefined\<close>.\<close>

definition engines_node :: "json \<Rightarrow> json option" where
  "engines_node content =
     (case (case content of JNull \<Rightarrow> None | _ \<Rightarrow> get_prop content ''engines'') of
        None \<Rightarrow> None
      | Some JNull \<Rightarrow> None
      | Some e \<Rightarrow> get_prop e ''node'')"

fun truthy :: "json \<Rightarrow> bool" where
  "truthy JNull = False"
| "truthy (JBool b) = b"
| "truthy (JNumber r) = (r \<noteq> 0)"
| "truthy (JString s) = (s \<noteq> [])"
| "truthy (JArray xs) = True"
| "truthy (JObject kvs) = True"

text \<open>
  What the program takes from its platform without defining it: \<open>JSON.parse\<close>
  (\<open>None\<close> is its SyntaxError), \<open>JSON.stringify(_, null, 2)\<close> and
  \<open>path.relative(process.cwd(), _)\<close>.
\<close>

record platform =
  json_parse :: "string \<Rightarrow> json option"
  json_stringify :: "json \<Rightarrow> string"
  relative :: "string \<Rightarrow> string"

text \<open>\<open>path.join\<close> of a directory and a name that need no normalising.\<close>

definition path_join :: "string \<Rightarrow> string \<Rightarrow> string" where
  "path_join a b = a @ ''/'' @ b"

definition basename :: "string \<Rightarrow> string" where
  "basename p = rev (takeWhile (\<lambda>c. c \<noteq> CHR ''/'') (rev p))"

definition dirname :: "string \<Rightarrow> string" where
  "dirname p = rev (drop 1 (dropWhile (\<lambda>c. c \<noteq> CHR ''/'') (rev p)))"

text \<open>
  The file system: what is at each path, the names each directory lists (in the order
  \<open>readdirSync\<close> gives them), the paths whose reading fails though they exist, the paths
  where writing or creating fails; and the clock: \<open>clock w n\<close> is what the \<open>n\<close>-th
  call of \<open>Date.now()\<close> returns.
\<close>

datatype node = File string | Dir

record world =
  nodes :: "string \<Rightarrow> node option"
  entries :: "string \<Rightarrow> string list"
  rdeny :: "string \<Rightarrow> bool"
  wdeny :: "string \<Rightarrow> bool"
  clock :: "nat \<Rightarrow> nat"
  ticks :: nat

definition existsSync :: "world \<Rightarrow> string \<Rightarrow> bool" where
  "existsSync w p = (nodes w p \<noteq> None)"

definition readFileSync :: "world \<Rightarrow> string \<Rightarrow> failure + string" where
  "readFileSync w p =
     (case nodes w p of
        None \<Rightarrow> Inl ENOENT
      | Some Dir \<Rightarrow> Inl EISDIR
      | Some (File c) \<Rightarrow> if rdeny w p then Inl EACCES else Inr c)"

definition readdirSync :: "world \<Rightarrow> string \<Rightarrow> failure + string list" where
  "readdirSync w d =
     (case nodes w d of
        None \<Rightarrow> Inl ENOENT
      | Some (File c) \<Rightarrow> Inl ENOTDIR
      | Some Dir \<Rightarrow> if rdeny w d then Inl EACCES else Inr (entries w d))"

text \<open>A write replaces the content of a file, or creates the file and its directory entry.\<close>

definition writeFileSync :: "world \<Rightarrow> string \<Rightarrow> string \<Rightarrow> (failure + unit) \<times> world" where
  "writeFileSync w p c =
     (if wdeny w p then (Inl EACCES, w)
      else (case nodes w p of
              Some Dir \<Rightarrow> (Inl EISDIR, w)
            | Some (File old) \<Rightarrow> (Inr (), w\<lparr>nodes := (nodes w)(p \<mapsto> File c)\<rparr>)
            | None \<Rightarrow>
                (Inr (), w\<lparr>nodes := (nodes w)(p \<mapsto> File c),
                           entries := (entries w)(dirname p := entries w (dirname p) @ [basename p])\<rparr>)))"

definition copyFileSync :: "world \<Rightarrow> string \<Rightarrow> string \<Rightarrow> (failure + unit) \<times> world" where
  "copyFileSync w src dst =
     (case readFileSync w src of Inl e \<Rightarrow> (Inl e, w) | Inr c \<Rightarrow> writeFileSync w dst c)"

definition Date_now :: "world \<Rightarrow> nat \<times> world" where
  "Date_now w = (clock w (ticks w), w\<lparr>ticks := Suc (ticks w)\<rparr>)"

section \<open>version-check.ts\<close>

record VersionInfo =
  "file" :: string
  relativePath :: string
  currentVersion :: string
  fullVersion :: string
  majorVersion :: nat
  fileType :: string

record VersionReport =
  versions :: "VersionInfo list"
  hasMismatch :: bool
  targetVersion :: "nat option"

definition extractMajorVersion :: "string \<Rightarrow> nat" where
  "extractMajorVersion version =
     (case js_match rx_int version of Some m \<Rightarrow> parseInt (group_or_empty m 1) | None \<Rightarrow> 0)"

text \<open>
  Each check returns \<open>Inr None\<close> for the source's \<open>null\<close> and \<open>Inl\<close> when the source
  throws: a read outside a \<open>try\<close> that fails.
\<close>

definition checkNvmrc :: "world \<Rightarrow> string \<Rightarrow> failure + VersionInfo option" where
  "checkNvmrc w projectRoot =
     (let filePath = path_join projectRoot ''.nvmrc'' in
      if \<not> existsSync w filePath then Inr None
      else bindE (readFileSync w filePath) (\<lambda>raw.
        let content = trim raw in
        case match_here rx_nvm content of
          None \<Rightarrow> Inr None
        | Some m \<Rightarrow>
            Inr (Some \<lparr>file = filePath, relativePath = ''.nvmrc'',
                       currentVersion = group_or_empty m 1, fullVersion = content,
                       majorVersion = parseInt (group_or_empty m 1), fileType = ''nvmrc''\<rparr>)))"

text \<open>
  The whole body after the existence test is in a \<open>try\<close>: a failed read, a SyntaxError
  of \<open>JSON.parse\<close> and the TypeError of \<open>nodeVersion.match\<close> on a value that is not a
  string all end in \<open>null\<close>.
\<close>

definition checkPackageJson :: "platform \<Rightarrow> world \<Rightarrow> string \<Rightarrow> failure + VersionInfo option" where
  "checkPackageJson P w projectRoot =
     (let filePath = path_join projectRoot ''package.json'' in
      if \<not> existsSync w filePath then Inr None
      else (case readFileSync w filePath of
              Inl e \<Rightarrow> Inr None
            | Inr raw \<Rightarrow>
                (case json_parse P raw of
                   None \<Rightarrow> Inr None
                 | Some content \<Rightarrow>
                     (case engines_node content of
                        None \<Rightarrow> Inr None
                      | Some nodeVersion \<Rightarrow>
                          if \<not> truthy nodeVersion then Inr None
                          else (case nodeVersion of
                                  JString s \<Rightarrow>
                                    Inr (Some \<lparr>file = filePath, relativePath = ''package.json'',
                                               currentVersion = toString (extractMajorVersion s),
                                               fullVersion = s,
                                               majorVersion = extractMajorVersion s,
                                               fileType = ''package.json''\<rparr>)
                                | _ \<Rightarrow> Inr None)))))"

definition checkDockerfile :: "world \<Rightarrow> string \<Rightarrow> failure + VersionInfo option" where
  "checkDockerfile w projectRoot =
     (let filePath = path_join projectRoot ''Dockerfile'' in
      if \<not> existsSync w filePath then Inr None
      else bindE (readFileSync w filePath) (\<lambda>content.
        case js_match rx_from content of
          None \<Rightarrow> Inr None
        | Some m \<Rightarrow>
            let suffix = group_or_empty m 2 in
            Inr (Some \<lparr>file = filePath, relativePath = ''Dockerfile'',
                       currentVersion = group_or_empty m 1,
                       fullVersion = group_or_empty m 1 @ suffix,
                       majorVersion = parseInt (group_or_empty m 1), fileType = ''dockerfile''\<rparr>)))"

definition checkDockerCompose :: "world \<Rightarrow> string \<Rightarrow> failure + VersionInfo option" where
  "checkDockerCompose w projectRoot =
     (let filePath = path_join projectRoot ''docker-compose.yml'' in
      if \<not> existsSync w filePath then Inr None
      else bindE (readFileSync w filePath) (\<lambda>content.
        case js_match rx_image content of
          None \<Rightarrow> Inr None
        | Some m \<Rightarrow>
            let suffix = group_or_empty m 2 in
            Inr (Some \<lparr>file = filePath, relativePath = ''docker-compose.yml'',
                       currentVersion = group_or_empty m 1,
                       fullVersion = group_or_empty m 1 @ suffix,
                       majorVersion = parseInt (group_or_empty m 1),
                       fileType = ''docker-compose''\<rparr>)))"

definition workflowInfo :: "string \<Rightarrow> string \<Rightarrow> rx_match \<Rightarrow> VersionInfo" where
  "workflowInfo filePath name m =
     \<lparr>file = filePath, relativePath = ''.github/workflows/'' @ name,
      currentVersion = group_or_empty m 1, fullVersion = group_or_empty m 1,
      majorVersion = parseInt (group_or_empty m 1), fileType = ''github-workflow''\<rparr>"

text \<open>
  The loop over the workflow files, inside the one \<open>try\<close> of the function: a read that
  throws leaves the loop, and the function returns what \<open>results\<close> holds by then.
\<close>

fun workflowLoop :: "world \<Rightarrow> string \<Rightarrow> string list \<Rightarrow> VersionInfo list \<Rightarrow> VersionInfo list" where
  "workflowLoop w workflowDir [] results = results"
| "workflowLoop w workflowDir (f # files) results =
     (let filePath = path_join workflowDir f in
      case readFileSync w filePath of
        Inl e \<Rightarrow> results
      | Inr content \<Rightarrow>
          (case js_match rx_node_version content of
             Some m \<Rightarrow> workflowLoop w workflowDir files (results @ [workflowInfo filePath f m])
           | None \<Rightarrow>
               (case js_match rx_node_env content of
                  Some m \<Rightarrow> workflowLoop w workflowDir files (results @ [workflowInfo filePath f m])
                | None \<Rightarrow> workflowLoop w workflowDir files results)))"

definition checkGitHubWorkflows :: "world \<Rightarrow> string \<Rightarrow> VersionInfo list" where
  "checkGitHubWorkflows w projectRoot =
     (let workflowDir = path_join (path_join projectRoot ''.github'') ''workflows'' in
      if \<not> existsSync w workflowDir then []
      else (case readdirSync w workflowDir of
              Inl e \<Rightarrow> []
            | Inr names \<Rightarrow>
                workflowLoop w workflowDir
                  (filter (\<lambda>f. endsWith f ''.yml'' \<or> endsWith f ''.yaml'') names) []))"

definition checkNodeVersion :: "world \<Rightarrow> string \<Rightarrow> failure + VersionInfo option" where
  "checkNodeVersion w projectRoot =
     (let filePath = path_join projectRoot ''.node-version'' in
      if \<not> existsSync w filePath then Inr None
      else bindE (readFileSync w filePath) (\<lambda>raw.
        let content = trim raw in
        case match_here rx_nvm content of
          None \<Rightarrow> Inr None
        | Some m \<Rightarrow>
            Inr (Some \<lparr>file = filePath, relativePath = ''.node-version'',
                       currentVersion = group_or_empty m 1, fullVersion = content,
                       majorVersion = parseInt (group_or_empty m 1),
                       fileType = ''node-version''\<rparr>)))"

definition checkToolVersions :: "world \<Rightarrow> string \<Rightarrow> failure + VersionInfo option" where
  "checkToolVersions w projectRoot =
     (let filePath = path_join projectRoot ''.tool-versions'' in
      if \<not> existsSync w filePath then Inr None
      else bindE (readFileSync w filePath) (\<lambda>content.
        case js_match rx_nodejs content of
          None \<Rightarrow> Inr None
        | Some m \<Rightarrow>
            Inr (Some \<lparr>file = filePath, relativePath = ''.tool-versions'',
                       currentVersion = group_or_empty m 1, fullVersion = group_or_empty m 1,
                       majorVersion = parseInt (group_or_empty m 1),
                       fileType = ''tool-versions''\<rparr>)))"

text \<open>The six checks run in the order of the array literal; the first that throws ends the scan.\<close>

definition scanVersions :: "platform \<Rightarrow> world \<Rightarrow> string \<Rightarrow> failure + VersionInfo list" where
  "scanVersions P w projectRoot =
     bindE (checkNvmrc w projectRoot) (\<lambda>c1.
     bindE (checkPackageJson P w projectRoot) (\<lambda>c2.
     bindE (checkDockerfile w projectRoot) (\<lambda>c3.
     bindE (checkDockerCompose w projectRoot) (\<lambda>c4.
     bindE (checkNodeVersion w projectRoot) (\<lambda>c5.
     bindE (checkToolVersions w projectRoot) (\<lambda>c6.
       Inr (List.map_filter id [c1, c2, c3, c4, c5, c6] @ checkGitHubWorkflows w projectRoot)))))))"

text \<open>
  \<open>versionCounts\<close> is a \<open>Map\<close>: an association list in insertion order, where a key
  that is set again keeps its place (\<open>AList.update\<close>) and \<open>get\<close> is \<open>map_of\<close>.
  The loop runs \<open>versionCounts.set(m, (versionCounts.get(m) || 0) + 1)\<close> for each record.
\<close>

definition countVersions :: "VersionInfo list \<Rightarrow> (nat \<times> nat) list" where
  "countVersions vs =
     foldl (\<lambda>counts v.
              AList.update (majorVersion v)
                ((case map_of counts (majorVersion v) of None \<Rightarrow> 0 | Some n \<Rightarrow> n) + 1) counts)
           [] vs"

text \<open>The loop over the entries, its state \<open>(maxCount, resolvedTarget)\<close>.\<close>

definition mostCommon :: "nat \<times> nat option \<Rightarrow> (nat \<times> nat) list \<Rightarrow> nat \<times> nat option" where
  "mostCommon init counts =
     foldl (\<lambda>(maxCount, resolvedTarget) (ver, count).
              if count > maxCount then (count, Some ver) else (maxCount, resolvedTarget))
           init counts"

text \<open>\<open>!resolvedTarget\<close> holds for \<open>null\<close> and for the number 0.\<close>

definition generateReport ::
  "platform \<Rightarrow> world \<Rightarrow> string \<Rightarrow> nat option \<Rightarrow> failure + VersionReport" where
  "generateReport P w projectRoot target =
     bindE (scanVersions P w projectRoot) (\<lambda>vs.
       let hasMismatch = (card (set (map majorVersion vs)) > 1);
           resolvedTarget =
             (if (target = None \<or> target = Some 0) \<and> length vs > 0
              then snd (mostCommon (0, target) (countVersions vs))
              else target)
       in Inr \<lparr>versions = vs, hasMismatch = hasMismatch, targetVersion = resolvedTarget\<rparr>)"

section \<open>version-update.ts\<close>

text \<open>
  \<open>oldVersion\<close> is a JSON value: \<open>updatePackageJson\<close> stores what it finds at
  \<open>engines.node\<close>, whatever its type. \<open>error\<close> and \<open>backedUp\<close> are optional fields.
\<close>

record UpdateResult =
  "file" :: string
  relativePath :: string
  oldVersion :: json
  newVersion :: string
  success :: bool
  error :: "failure option"
  backedUp :: "bool option"

record UpdateOptions =
  dryRun :: bool
  backup :: bool

definition DEFAULT_OPTIONS :: UpdateOptions where
  "DEFAULT_OPTIONS = \<lparr>dryRun = False, backup = True\<rparr>"

definition backupFile :: "world \<Rightarrow> string \<Rightarrow> (failure + string) \<times> world" where
  "backupFile w filePath =
     (let (timestamp, w1) = Date_now w;
          backupPath = filePath @ ''.backup.'' @ toString timestamp
      in case copyFileSync w1 filePath backupPath of
           (Inl e, w2) \<Rightarrow> (Inl e, w2)
         | (Inr u, w2) \<Rightarrow> (Inr backupPath, w2))"

text \<open>
  The \<open>try\<close> block that ends each updater: the backup when it is asked for, then the
  write. \<open>Inr\<close> carries \<open>backedUp\<close>, \<open>Inl\<close> what the \<open>catch\<close> receives.
\<close>

definition backupAndWrite ::
  "world \<Rightarrow> UpdateOptions \<Rightarrow> string \<Rightarrow> string \<Rightarrow> (failure + bool) \<times> world" where
  "backupAndWrite w options filePath newContent =
     (if backup options then
        (case backupFile w filePath of
           (Inl e, w1) \<Rightarrow> (Inl e, w1)
         | (Inr b, w1) \<Rightarrow>
             (case writeFileSync w1 filePath newContent of
                (Inl e, w2) \<Rightarrow> (Inl e, w2)
              | (Inr u, w2) \<Rightarrow> (Inr True, w2)))
      else
        (case writeFileSync w filePath newContent of
           (Inl e, w1) \<Rightarrow> (Inl e, w1)
         | (Inr u, w1) \<Rightarrow> (Inr False, w1)))"

definition result_ok :: "string \<Rightarrow> string \<Rightarrow> json \<Rightarrow> string \<Rightarrow> bool option \<Rightarrow> UpdateResult" where
  "result_ok filePath rel old new bk =
     \<lparr>file = filePath, relativePath = rel, oldVersion = old, newVersion = new,
      success = True, error = None, backedUp = bk\<rparr>"

definition result_failed :: "string \<Rightarrow> string \<Rightarrow> json \<Rightarrow> string \<Rightarrow> failure \<Rightarrow> UpdateResult" where
  "result_failed filePath rel old new e =
     \<lparr>file = filePath, relativePath = rel, oldVersion = old, newVersion = new,
      success = False, error = Some e, backedUp = None\<rparr>"

text \<open>
  The end of each updater after the pattern was found: the dry-run result, or the
  \<open>try\<close> block and the result of its outcome.
\<close>

definition finish ::
  "world \<Rightarrow> UpdateOptions \<Rightarrow> string \<Rightarrow> string \<Rightarrow> json \<Rightarrow> string \<Rightarrow> string \<Rightarrow>
   UpdateResult \<times> world" where
  "finish w options filePath rel old new newContent =
     (if dryRun options then (result_ok filePath rel old new None, w)
      else (case backupAndWrite w options filePath newContent of
              (Inr b, w') \<Rightarrow> (result_ok filePath rel old new (Some b), w')
            | (Inl e, w') \<Rightarrow> (result_failed filePath rel old new e, w')))"

text \<open>
  The updaters return \<open>Inl\<close> when they throw: all but \<open>updatePackageJson\<close> read the file
  before their \<open>try\<close>.
\<close>

definition updateNvmrc ::
  "platform \<Rightarrow> world \<Rightarrow> string \<Rightarrow> nat \<Rightarrow> UpdateOptions \<Rightarrow> (failure + UpdateResult) \<times> world" where
  "updateNvmrc P w filePath target options =
     (case readFileSync w filePath of
        Inl e \<Rightarrow> (Inl e, w)
      | Inr raw \<Rightarrow>
          (case finish w options filePath (relative P filePath) (JString (trim raw))
                  (toString target) (toString target @ [CHR 0x0A]) of
             (r, w') \<Rightarrow> (Inr r, w')))"

text \<open>
  \<open>if (!content.engines) content.engines = {}; content.engines.node = newVersion\<close>, with
  \<open>None\<close> for a TypeError: reading a property of \<open>null\<close>, or (module code is strict)
  setting one on a boolean, a number or a string. A property set on an array is not
  part of what \<open>JSON.stringify\<close> prints.
\<close>

definition set_engines_node :: "json \<Rightarrow> string \<Rightarrow> json option" where
  "set_engines_node content v =
     (case content of
        JNull \<Rightarrow> None
      | JObject kvs \<Rightarrow>
          (case map_of kvs ''engines'' of
             None \<Rightarrow> Some (JObject (AList.update ''engines'' (JObject [(''node'', JString v)]) kvs))
           | Some e \<Rightarrow>
               if \<not> truthy e
               then Some (JObject (AList.update ''engines'' (JObject [(''node'', JString v)]) kvs))
               else (case e of
                       JObject es \<Rightarrow>
                         Some (JObject (AList.update ''engines''
                                          (JObject (AList.update ''node'' (JString v) es)) kvs))
                     | JArray xs \<Rightarrow> Some content
                     | _ \<Rightarrow> None))
      | JArray xs \<Rightarrow> Some content
      | _ \<Rightarrow> None)"

definition updatePackageJson ::
  "platform \<Rightarrow> world \<Rightarrow> string \<Rightarrow> nat \<Rightarrow> UpdateOptions \<Rightarrow> (failure + UpdateResult) \<times> world" where
  "updatePackageJson P w filePath target options =
     (let rel = relative P filePath;
          newVersion = ''>='' @ toString target @ ''.0.0'';
          failed = result_failed filePath rel (JString []) newVersion
      in case readFileSync w filePath of
           Inl e \<Rightarrow> (Inr (failed e), w)
         | Inr raw \<Rightarrow>
             (case json_parse P raw of
                None \<Rightarrow> (Inr (failed SyntaxError), w)
              | Some content \<Rightarrow>
                  let old = (case engines_node content of
                               None \<Rightarrow> JString []
                             | Some v \<Rightarrow> if truthy v then v else JString [])
                  in if dryRun options then (Inr (result_ok filePath rel old newVersion None), w)
                     else (case set_engines_node content newVersion of
                             None \<Rightarrow> (Inr (failed TypeError), w)
                           | Some content' \<Rightarrow>
                               (case backupAndWrite w options filePath
                                       (json_stringify P content' @ [CHR 0x0A]) of
                                  (Inr b, w') \<Rightarrow>
                                    (Inr (result_ok filePath rel old newVersion (Some b)), w')
                                | (Inl e, w') \<Rightarrow> (Inr (failed e), w')))))"

definition updateDockerfile ::
  "platform \<Rightarrow> world \<Rightarrow> string \<Rightarrow> nat \<Rightarrow> UpdateOptions \<Rightarrow> (failure + UpdateResult) \<times> world" where
  "updateDockerfile P w filePath target options =
     (case readFileSync w filePath of
        Inl e \<Rightarrow> (Inl e, w)
      | Inr content \<Rightarrow>
          (case js_match rx_from content of
             None \<Rightarrow>
               (Inr (result_failed filePath (relative P filePath) (JString []) (toString target)
                       (Message ''No FROM node: line found'')), w)
           | Some m \<Rightarrow>
               let old = group_or_empty m 1;
                   suffix = group_or_empty m 2;
                   newContent = js_replace rx_from (''FROM node:'' @ toString target @ suffix) content
               in (case finish w options filePath (relative P filePath) (JString (old @ suffix))
                          (toString target @ suffix) newContent of
                     (r, w') \<Rightarrow> (Inr r, w'))))"

definition updateDockerCompose ::
  "platform \<Rightarrow> world \<Rightarrow> string \<Rightarrow> nat \<Rightarrow> UpdateOptions \<Rightarrow> (failure + UpdateResult) \<times> world" where
  "updateDockerCompose P w filePath target options =
     (case readFileSync w filePath of
        Inl e \<Rightarrow> (Inl e, w)
      | Inr content \<Rightarrow>
          (case js_match rx_image content of
             None \<Rightarrow>
               (Inr (result_failed filePath (relative P filePath) (JString []) (toString target)
                       (Message ''No image: node: line found'')), w)
           | Some m \<Rightarrow>
               let old = group_or_empty m 1;
                   suffix = group_or_empty m 2;
                   newContent = js_replace rx_image (''image: node:'' @ toString target @ suffix) content
               in (case finish w options filePath (relative P filePath) (JString (old @ suffix))
                          (toString target @ suffix) newContent of
                     (r, w') \<Rightarrow> (Inr r, w'))))"

text \<open>
  The two blocks of \<open>updateGitHubWorkflow\<close> rewrite \<open>content\<close> one after the other, each
  with the \<open>g\<close> flag; \<open>oldVersion\<close> is taken from the first block that matched (a capture
  of \<open>(\d+)\<close> is never the empty string, so \<open>!oldVersion\<close> asks whether the first did).
\<close>

definition updateGitHubWorkflow ::
  "platform \<Rightarrow> world \<Rightarrow> string \<Rightarrow> nat \<Rightarrow> UpdateOptions \<Rightarrow> (failure + UpdateResult) \<times> world" where
  "updateGitHubWorkflow P w filePath target options =
     (case readFileSync w filePath of
        Inl e \<Rightarrow> (Inl e, w)
      | Inr content0 \<Rightarrow>
          let nodeVersionMatch = js_match rx_node_version content0;
              (old1, content1) =
                (case nodeVersionMatch of
                   None \<Rightarrow> ([], content0)
                 | Some m \<Rightarrow>
                     (group_or_empty m 1,
                      js_replace_all rx_node_version
                        (''node-version: '' @ [CHR 0x27] @ toString target @ [CHR 0x27]) content0));
              nodeEnvMatch = js_match rx_node_env content1;
              (old2, content2) =
                (case nodeEnvMatch of
                   None \<Rightarrow> (old1, content1)
                 | Some m \<Rightarrow>
                     (if old1 = [] then group_or_empty m 1 else old1,
                      js_replace_all rx_node_env
                        (''NODE_VERSION: '' @ [CHR 0x27] @ toString target @ [CHR 0x27]) content1));
              updated = (nodeVersionMatch \<noteq> None \<or> nodeEnvMatch \<noteq> None)
          in if \<not> updated
             then (Inr (result_failed filePath (relative P filePath) (JString []) (toString target)
                          (Message ''No node version pattern found'')), w)
             else (case finish w options filePath (relative P filePath) (JString old2)
                          (toString target) content2 of
                     (r, w') \<Rightarrow> (Inr r, w')))"

definition updateNodeVersionFile ::
  "platform \<Rightarrow> world \<Rightarrow> string \<Rightarrow> nat \<Rightarrow> UpdateOptions \<Rightarrow> (failure + UpdateResult) \<times> world" where
  "updateNodeVersionFile P w filePath target options =
     (case readFileSync w filePath of
        Inl e \<Rightarrow> (Inl e, w)
      | Inr raw \<Rightarrow>
          (case finish w options filePath (relative P filePath) (JString (trim raw))
                  (toString target) (toString target @ [CHR 0x0A]) of
             (r, w') \<Rightarrow> (Inr r, w')))"

definition updateToolVersions ::
  "platform \<Rightarrow> world \<Rightarrow> string \<Rightarrow> nat \<Rightarrow> UpdateOptions \<Rightarrow> (failure + UpdateResult) \<times> world" where
  "updateToolVersions P w filePath target options =
     (case readFileSync w filePath of
        Inl e \<Rightarrow> (Inl e, w)
      | Inr content \<Rightarrow>
          (case js_match rx_nodejs content of
             None \<Rightarrow>
               (Inr (result_failed filePath (relative P filePath) (JString []) (toString target)
                       (Message ''No nodejs line found'')), w)
           | Some m \<Rightarrow>
               let old = group_or_empty m 1;
                   newContent = js_replace rx_nodejs (''nodejs '' @ toString target) content
               in (case finish w options filePath (relative P filePath) (JString old)
                          (toString target) newContent of
                     (r, w') \<Rightarrow> (Inr r, w'))))"

definition updateVersionFile ::
  "platform \<Rightarrow> world \<Rightarrow> VersionInfo \<Rightarrow> nat \<Rightarrow> UpdateOptions \<Rightarrow> (failure + UpdateResult) \<times> world" where
  "updateVersionFile P w versionInfo target options =
     (if fileType versionInfo = ''nvmrc''
        then updateNvmrc P w (VersionInfo.file versionInfo) target options
      else if fileType versionInfo = ''package.json''
        then updatePackageJson P w (VersionInfo.file versionInfo) target options
      else if fileType versionInfo = ''dockerfile''
        then updateDockerfile P w (VersionInfo.file versionInfo) target options
      else if fileType versionInfo = ''docker-compose''
        then updateDockerCompose P w (VersionInfo.file versionInfo) target options
      else if fileType versionInfo = ''github-workflow''
        then updateGitHubWorkflow P w (VersionInfo.file versionInfo) target options
      else if fileType versionInfo = ''node-version''
        then updateNodeVersionFile P w (VersionInfo.file versionInfo) target options
      else if fileType versionInfo = ''tool-versions''
        then updateToolVersions P w (VersionInfo.file versionInfo) target options
      else (Inr (result_failed (VersionInfo.file versionInfo) (VersionInfo.relativePath versionInfo)
                   (JString (fullVersion versionInfo)) (toString target)
                   (Message (''Unknown file type: '' @ fileType versionInfo))), w))"

text \<open>The loop of \<open>updateAllVersions\<close>; a record already at the target is not handed on.\<close>

fun updateLoop ::
  "platform \<Rightarrow> world \<Rightarrow> VersionInfo list \<Rightarrow> nat \<Rightarrow> UpdateOptions \<Rightarrow> UpdateResult list \<Rightarrow>
   (failure + UpdateResult list) \<times> world" where
  "updateLoop P w [] target opts results = (Inr results, w)"
| "updateLoop P w (versionInfo # rest) target opts results =
     (if majorVersion versionInfo = target
      then updateLoop P w rest target opts
             (results @ [result_ok (VersionInfo.file versionInfo) (VersionInfo.relativePath versionInfo)
                           (JString (fullVersion versionInfo)) (toString target) None])
      else (case updateVersionFile P w versionInfo target opts of
              (Inl e, w') \<Rightarrow> (Inl e, w')
            | (Inr result, w') \<Rightarrow> updateLoop P w' rest target opts (results @ [result])))"

text \<open>\<open>opts\<close> is \<open>DEFAULT_OPTIONS\<close> overridden by the caller's options, here given in full.\<close>

definition updateAllVersions ::
  "platform \<Rightarrow> world \<Rightarrow> string \<Rightarrow> nat \<Rightarrow> UpdateOptions \<Rightarrow>
   (failure + UpdateResult list) \<times> world" where
  "updateAllVersions P w projectRoot target opts =
     (case scanVersions P w projectRoot of
        Inl e \<Rightarrow> (Inl e, w)
      | Inr vs \<Rightarrow> updateLoop P w vs target opts [])"

text \<open>One step of the counting loop.\<close>

definition count_step :: "(nat \<times> nat) list \<Rightarrow> nat \<Rightarrow> (nat \<times> nat) list" where
  "count_step counts k = AList.update k ((case map_of counts k of None \<Rightarrow> 0 | Some n \<Rightarrow> n) + 1) counts"

text \<open>
  The first integer run of a text, in the words of the specification: the digits that
  follow the longest prefix without a digit.
\<close>

definition first_integer_run :: "string \<Rightarrow> string" where
  "first_integer_run s = takeWhile is_digit (dropWhile (\<lambda>c. \<not> is_digit c) s)"

text \<open>
  The value an update is to leave, in the words of the specification: the target with
  the captured suffix for the two Docker formats, a range from the target for
  \<open>package.json\<close>, the target for the others.
\<close>

definition afterValue :: "VersionInfo \<Rightarrow> nat \<Rightarrow> string" where
  "afterValue v target =
     (if fileType v = ''dockerfile'' \<or> fileType v = ''docker-compose''
      then toString target @ drop (length (currentVersion v)) (fullVersion v)
      else if fileType v = ''package.json'' then ''>='' @ toString target @ ''.0.0''
      else toString target)"

text \<open>
  Every record is processed in its turn: a record at the target gets the result that
  says so, any other is handed to \<open>updateVersionFile\<close> in the world its predecessors
  left, which returns the result of this record and the next world.
\<close>

fun each_processed ::
  "platform \<Rightarrow> nat \<Rightarrow> UpdateOptions \<Rightarrow> world \<Rightarrow> VersionInfo list \<Rightarrow> UpdateResult list \<Rightarrow>
   world \<Rightarrow> bool" where
  "each_processed P target opts w [] [] w' = (w' = w)"
| "each_processed P target opts w (v # vs) (r # rs) w' =
     (if majorVersion v = target
      then r = result_ok (VersionInfo.file v) (VersionInfo.relativePath v)
                 (JString (fullVersion v)) (toString target) None \<and>
           each_processed P target opts w vs rs w'
      else (case updateVersionFile P w v target opts of
              (Inr r', w1) \<Rightarrow> r = r' \<and> each_processed P target opts w1 vs rs w'
            | (Inl e, w1) \<Rightarrow> False))"
| "each_processed P target opts w vs rs w' = False"

text \<open>
  The ways an updater ends: it throws because the read failed, it fails before writing,
  it reports a dry run, or it went through the \<open>try\<close> block, which wrote or failed.
\<close>

definition outcome ::
  "world \<Rightarrow> UpdateOptions \<Rightarrow> string \<Rightarrow> (failure + UpdateResult) \<times> world \<Rightarrow> bool" where
  "outcome w opts p x =
     ((\<exists>e. x = (Inl e, w) \<and> readFileSync w p = Inl e) \<or>
      (\<exists>rel old new e. x = (Inr (result_failed p rel old new e), w)) \<or>
      (dryRun opts \<and> (\<exists>rel old new. x = (Inr (result_ok p rel old new None), w))) \<or>
      (\<not> dryRun opts \<and>
         (\<exists>rel old new c b w'. backupAndWrite w opts p c = (Inr b, w') \<and>
            x = (Inr (result_ok p rel old new (Some b)), w'))) \<or>
      (\<not> dryRun opts \<and>
         (\<exists>rel old new c e w'. backupAndWrite w opts p c = (Inl e, w') \<and>
            x = (Inr (result_failed p rel old new e), w'))))"

text \<open>
  The two keys of a workflow file, and the pattern of a key: the key without regard to
  case, then the quoted integer; \<open>rx_node_version\<close> and \<open>rx_node_env\<close> are its two instances.
\<close>

definition wf_key :: "string \<Rightarrow> bool" where
  "wf_key K = (K = ''node-version:'' \<or> K = ''NODE_VERSION:'')"

definition rx_key :: "string \<Rightarrow> pattern" where
  "rx_key K s = (case lit True K s of None \<Rightarrow> None | Some r \<Rightarrow> rx_quoted_int r)"

text \<open>A text stops a run of white space, quotes and digits when it is empty or begins otherwise.\<close>

definition stops :: "string \<Rightarrow> bool" where
  "stops y = (y = [] \<or> \<not> is_space (hd y) \<and> \<not> is_quote (hd y) \<and> \<not> is_digit (hd y))"

text \<open>The line an update writes for a key: the key, a space and the quoted target.\<close>

definition wf_line :: "string \<Rightarrow> string \<Rightarrow> string" where
  "wf_line K T = K @ '' '' @ [CHR 0x27] @ T @ [CHR 0x27]"


text \<open>
  A text with every occurrence of the two patterns rewritten, in the words of the
  specification: the text is read from the left; where the \<open>node-version:\<close> pattern
  matches, the key with the quoted target is written and the reading goes on after the
  match; where the \<open>NODE_VERSION:\<close> pattern matches, likewise with its key; any other
  character is copied. The fuel is the length of the text: a match is never empty.
\<close>

fun rewrite_keys_fuel :: "nat \<Rightarrow> string \<Rightarrow> string \<Rightarrow> string" where
  "rewrite_keys_fuel 0 T s = s"
| "rewrite_keys_fuel (Suc n) T [] = []"
| "rewrite_keys_fuel (Suc n) T (c # cs) =
     (case rx_node_version (c # cs) of
        Some (gs, r) \<Rightarrow> ''node-version: '' @ [CHR 0x27] @ T @ [CHR 0x27] @ rewrite_keys_fuel n T r
      | None \<Rightarrow>
          (case rx_node_env (c # cs) of
             Some (gs, r) \<Rightarrow> ''NODE_VERSION: '' @ [CHR 0x27] @ T @ [CHR 0x27] @ rewrite_keys_fuel n T r
           | None \<Rightarrow> c # rewrite_keys_fuel n T cs))"

definition rewrite_keys :: "string \<Rightarrow> string \<Rightarrow> string" where
  "rewrite_keys T s = rewrite_keys_fuel (length s) T s"

section \<open>Concrete projects\<close>

text \<open>
  Worlds and platforms on which the definitions are evaluated. \<open>mk_world\<close> builds a world
  from the files and the directory listings, with nothing denied.
\<close>

definition mk_world :: "(string \<times> node) list \<Rightarrow> (string \<times> string list) list \<Rightarrow> world" where
  "mk_world fs ds =
     \<lparr>nodes = map_of fs,
      entries = (\<lambda>d. case map_of ds d of None \<Rightarrow> [] | Some names \<Rightarrow> names),
      rdeny = (\<lambda>p. False), wdeny = (\<lambda>p. False),
      clock = (\<lambda>n. 1700000000000 + n), ticks = 0\<rparr>"

text \<open>A platform for projects without a \<open>package.json\<close>.\<close>

definition ex_platform :: platform where
  "ex_platform = \<lparr>json_parse = (\<lambda>s. None), json_stringify = (\<lambda>j. []), relative = (\<lambda>p. p)\<rparr>"

text \<open>Three records with the majors 20, 20 and 22.\<close>

definition ex_world_majority :: world where
  "ex_world_majority =
     mk_world [(''/app/.nvmrc'', File ''20\<newline>''),
               (''/app/Dockerfile'', File ''FROM node:20-slim\<newline>''),
               (''/app/.tool-versions'', File ''nodejs 22.1.0\<newline>'')] []"

definition ex_report_majority :: VersionReport where
  "ex_report_majority =
     \<lparr>versions =
        [\<lparr>VersionInfo.file = ''/app/.nvmrc'', VersionInfo.relativePath = ''.nvmrc'', currentVersion = ''20'',
          fullVersion = ''20'', majorVersion = 20, fileType = ''nvmrc''\<rparr>,
         \<lparr>VersionInfo.file = ''/app/Dockerfile'', VersionInfo.relativePath = ''Dockerfile'', currentVersion = ''20'',
          fullVersion = ''20-slim'', majorVersion = 20, fileType = ''dockerfile''\<rparr>,
         \<lparr>VersionInfo.file = ''/app/.tool-versions'', VersionInfo.relativePath = ''.tool-versions'',
          currentVersion = ''22'', fullVersion = ''22'', majorVersion = 22,
          fileType = ''tool-versions''\<rparr>],
      hasMismatch = True, targetVersion = Some 20\<rparr>"

text \<open>A Dockerfile, and the record the scan makes of it.\<close>

definition ex_world_docker :: world where
  "ex_world_docker = mk_world [(''/app/Dockerfile'', File ''FROM node:20-slim\<newline>'')] []"

definition ex_record_docker :: VersionInfo where
  "ex_record_docker =
     \<lparr>VersionInfo.file = ''/app/Dockerfile'', VersionInfo.relativePath = ''Dockerfile'',
      currentVersion = ''20'', fullVersion = ''20-slim'', majorVersion = 20,
      fileType = ''dockerfile''\<rparr>"

definition ex_world_compose :: world where
  "ex_world_compose =
     mk_world [(''/app/docker-compose.yml'',
                File ''services:\<newline>  web:\<newline>    image: node:18-alpine\<newline>'')] []"

text \<open>A Dockerfile that writes the keyword in lower case, with three spaces after it.\<close>

definition ex_world_lower :: world where
  "ex_world_lower = mk_world [(''/app/Dockerfile'', File ''from   node:20-slim\<newline>'')] []"

text \<open>A Dockerfile whose tag goes on with a dollar sign and a digit.\<close>

definition ex_world_dollar :: world where
  "ex_world_dollar = mk_world [(''/app/Dockerfile'', File ''FROM node:20$1\<newline>'')] []"

text \<open>
  A \<open>package.json\<close> that accepts every version of node, and a platform whose
  \<open>JSON.parse\<close> reads this text (and no other).
\<close>

definition ex_platform_json :: platform where
  \<open>ex_platform_json =
     \<lparr>json_parse =
        (\<lambda>s. if s = ''{"engines":{"node":"*"}}''
             then Some (JObject [(''engines'', JObject [(''node'', JString ''*'')])])
             else None),
      json_stringify = (\<lambda>j. []), relative = (\<lambda>p. p)\<rparr>\<close>

definition ex_world_star :: world where
  \<open>ex_world_star = mk_world [(''/app/package.json'', File ''{"engines":{"node":"*"}}'')] []\<close>

definition ex_record_star :: VersionInfo where
  "ex_record_star =
     \<lparr>VersionInfo.file = ''/app/package.json'', VersionInfo.relativePath = ''package.json'',
      currentVersion = ''0'', fullVersion = ''*'', majorVersion = 0,
      fileType = ''package.json''\<rparr>"

text \<open>
  A project with a Dockerfile of another image, a \<open>package.json\<close> that does not parse
  and a \<open>.tool-versions\<close>.
\<close>

definition ex_world_partial :: world where
  "ex_world_partial =
     mk_world [(''/app/Dockerfile'', File ''FROM python:3.12\<newline>''),
               (''/app/package.json'', File ''{ engines''),
               (''/app/.tool-versions'', File ''nodejs 22.1.0\<newline>'')] []"

definition ex_record_tool :: VersionInfo where
  "ex_record_tool =
     \<lparr>VersionInfo.file = ''/app/.tool-versions'', VersionInfo.relativePath = ''.tool-versions'',
      currentVersion = ''22'', fullVersion = ''22'', majorVersion = 22,
      fileType = ''tool-versions''\<rparr>"

text \<open>Three workflow files and a text file; the second workflow file cannot be read.\<close>

definition ex_world_workflows :: world where
  "ex_world_workflows =
     (mk_world [(''/app/.github/workflows'', Dir),
                (''/app/.github/workflows/a.yml'', File ''node-version: 20\<newline>''),
                (''/app/.github/workflows/b.yml'', File ''node-version: 20\<newline>''),
                (''/app/.github/workflows/c.yaml'', File ''node-version: 18\<newline>''),
                (''/app/.github/workflows/notes.txt'', File ''node-version: 16\<newline>'')]
               [(''/app/.github/workflows'', [''a.yml'', ''notes.txt'', ''b.yml'', ''c.yaml''])])
     \<lparr>rdeny := (\<lambda>p. p = ''/app/.github/workflows/b.yml'')\<rparr>"

definition ex_record_workflow_a :: VersionInfo where
  "ex_record_workflow_a =
     \<lparr>VersionInfo.file = ''/app/.github/workflows/a.yml'',
      VersionInfo.relativePath = ''.github/workflows/a.yml'',
      currentVersion = ''20'', fullVersion = ''20'', majorVersion = 20,
      fileType = ''github-workflow''\<rparr>"

text \<open>Three files, the one in the middle of the scan locked against writing.\<close>

definition ex_world_locked :: world where
  "ex_world_locked =
     (mk_world [(''/app/.nvmrc'', File ''v20.11.0\<newline>''),
                (''/app/Dockerfile'', File ''FROM node:20-slim\<newline>''),
                (''/app/.tool-versions'', File ''nodejs 20.11.0\<newline>'')] [])
     \<lparr>wdeny := (\<lambda>p. p = ''/app/Dockerfile'')\<rparr>"

definition ex_records_locked :: "VersionInfo list" where
  "ex_records_locked =
     [\<lparr>VersionInfo.file = ''/app/.nvmrc'', VersionInfo.relativePath = ''.nvmrc'',
       currentVersion = ''20'', fullVersion = ''v20.11.0'', majorVersion = 20,
       fileType = ''nvmrc''\<rparr>,
      \<lparr>VersionInfo.file = ''/app/Dockerfile'', VersionInfo.relativePath = ''Dockerfile'',
       currentVersion = ''20'', fullVersion = ''20-slim'', majorVersion = 20,
       fileType = ''dockerfile''\<rparr>,
      \<lparr>VersionInfo.file = ''/app/.tool-versions'', VersionInfo.relativePath = ''.tool-versions'',
       currentVersion = ''20'', fullVersion = ''20'', majorVersion = 20,
       fileType = ''tool-versions''\<rparr>]"

definition ex_results_locked :: "UpdateResult list" where
  "ex_results_locked =
     [\<lparr>UpdateResult.file = ''/app/.nvmrc'', relativePath = ''/app/.nvmrc'',
       oldVersion = JString ''v20.11.0'', newVersion = ''22'', success = True, error = None,
       backedUp = Some True\<rparr>,
      \<lparr>UpdateResult.file = ''/app/Dockerfile'', relativePath = ''/app/Dockerfile'',
       oldVersion = JString ''20-slim'', newVersion = ''22-slim'', success = False,
       error = Some EACCES, backedUp = None\<rparr>,
      \<lparr>UpdateResult.file = ''/app/.tool-versions'', relativePath = ''/app/.tool-versions'',
       oldVersion = JString ''20'', newVersion = ''22'', success = True, error = None,
       backedUp = Some True\<rparr>]"

text \<open>The results of a dry run to 22 on the project with the majors 20, 20 and 22.\<close>

definition ex_results_dry :: "UpdateResult list" where
  "ex_results_dry =
     [\<lparr>UpdateResult.file = ''/app/.nvmrc'', relativePath = ''/app/.nvmrc'',
       oldVersion = JString ''20'', newVersion = ''22'', success = True, error = None,
       backedUp = None\<rparr>,
      \<lparr>UpdateResult.file = ''/app/Dockerfile'', relativePath = ''/app/Dockerfile'',
       oldVersion = JString ''20-slim'', newVersion = ''22-slim'', success = True,
       error = None, backedUp = None\<rparr>,
      \<lparr>UpdateResult.file = ''/app/.tool-versions'', relativePath = ''.tool-versions'',
       oldVersion = JString ''22'', newVersion = ''22'', success = True, error = None,
       backedUp = None\<rparr>]"

text \<open>A workflow with both keys, the environment key first, and one at the target in its first key only.\<close>

definition ex_world_env :: world where
  "ex_world_env =
     mk_world [(''/app/.github/workflows'', Dir),
               (''/app/.github/workflows/ci.yml'', File ''NODE_VERSION: 20\<newline>node-version: 18\<newline>'')]
              [(''/app/.github/workflows'', [''ci.yml''])]"

definition ex_record_env :: VersionInfo where
  "ex_record_env =
     \<lparr>VersionInfo.file = ''/app/.github/workflows/ci.yml'',
      VersionInfo.relativePath = ''.github/workflows/ci.yml'',
      currentVersion = ''18'', fullVersion = ''18'', majorVersion = 18,
      fileType = ''github-workflow''\<rparr>"

definition ex_world_mixed :: world where
  "ex_world_mixed =
     mk_world [(''/app/.github/workflows'', Dir),
               (''/app/.github/workflows/ci.yml'', File ''node-version: 22\<newline>NODE_VERSION: 20\<newline>'')]
              [(''/app/.github/workflows'', [''ci.yml''])]"

definition ex_record_mixed :: VersionInfo where
  "ex_record_mixed =
     \<lparr>VersionInfo.file = ''/app/.github/workflows/ci.yml'',
      VersionInfo.relativePath = ''.github/workflows/ci.yml'',
      currentVersion = ''22'', fullVersion = ''22'', majorVersion = 22,
      fileType = ''github-workflow''\<rparr>"

text \<open>The workflow with both keys, listed after a workflow that cannot be read.\<close>

definition ex_world_blocked :: world where
  "ex_world_blocked =
     (mk_world [(''/app/.github/workflows'', Dir),
                (''/app/.github/workflows/a.yml'', File ''node-version: 20\<newline>''),
                (''/app/.github/workflows/ci.yml'', File ''NODE_VERSION: 20\<newline>node-version: 18\<newline>'')]
               [(''/app/.github/workflows'', [''a.yml'', ''ci.yml''])])
     \<lparr>rdeny := (\<lambda>p. p = ''/app/.github/workflows/a.yml'')\<rparr>"

text \<open>
  Three files at 20 as they are when the scan reads them, and the same project once the
  Dockerfile has been removed.
\<close>

definition ex_world_scanned :: world where
  "ex_world_scanned =
     mk_world [(''/app/.nvmrc'', File ''v20.11.0\<newline>''),
               (''/app/Dockerfile'', File ''FROM node:20-slim\<newline>''),
               (''/app/.tool-versions'', File ''nodejs 20.11.0\<newline>'')] []"

definition ex_world_removed :: world where
  "ex_world_removed = ex_world_scanned\<lparr>nodes := (nodes ex_world_scanned)(''/app/Dockerfile'' := None)\<rparr>"

text \<open>A project in which \<open>.nvmrc\<close> and \<open>package.json\<close> are directories.\<close>

definition ex_world_directory :: world where
  "ex_world_directory =
     mk_world [(''/app/.nvmrc'', Dir), (''/app/package.json'', Dir),
               (''/app/Dockerfile'', File ''FROM node:20-slim\<newline>'')] []"

text \<open>The workflow with both keys, locked against writing.\<close>

definition ex_world_readonly :: world where
  "ex_world_readonly = ex_world_env\<lparr>wdeny := (\<lambda>p. p = ''/app/.github/workflows/ci.yml'')\<rparr>"

section \<open>Evaluation\<close>

text \<open>The equations that evaluate the model on a concrete project.\<close>

lemmas rx_defs = rx_int_def rx_nvm_def rx_version_suffix_def rx_from_def rx_image_def
  rx_quoted_int_def rx_node_version_def rx_node_env_def rx_nodejs_def digits1_def
  is_digit_def is_space_def is_quote_def lower_def match_here_def group_def group_or_empty_def
  group_ref_def digit_val_def parseInt_def trim_def endsWith_def js_replace_def js_replace_all_def
  toString.simps

lemmas fs_defs = existsSync_def readFileSync_def readdirSync_def writeFileSync_def
  copyFileSync_def Date_now_def path_join_def basename_def dirname_def mk_world_def bindE_def

lemmas check_defs = extractMajorVersion_def checkNvmrc_def checkPackageJson_def checkDockerfile_def
  checkDockerCompose_def checkNodeVersion_def checkToolVersions_def checkGitHubWorkflows_def
  workflowInfo_def scanVersions_def engines_node_def map_filter_simps Let_def

lemmas update_defs = updateAllVersions_def updateVersionFile_def updateNvmrc_def
  updatePackageJson_def updateDockerfile_def updateDockerCompose_def updateGitHubWorkflow_def
  updateNodeVersionFile_def updateToolVersions_def finish_def backupAndWrite_def backupFile_def
  result_ok_def result_failed_def set_engines_node_def

lemmas ex_defs = ex_platform_def ex_world_docker_def ex_record_docker_def ex_world_compose_def
  ex_world_lower_def ex_world_dollar_def DEFAULT_OPTIONS_def ex_platform_json_def ex_world_star_def
  ex_record_star_def ex_world_partial_def ex_record_tool_def ex_world_workflows_def
  ex_record_workflow_a_def ex_world_locked_def ex_records_locked_def ex_results_locked_def
  ex_results_dry_def ex_world_majority_def ex_report_majority_def ex_world_env_def
  ex_record_env_def ex_world_mixed_def ex_record_mixed_def ex_world_blocked_def ex_world_scanned_def
  ex_world_removed_def ex_world_directory_def ex_world_readonly_def

section \<open>The inferred target\<close>

lemma countVersions_majors:
  "countVersions vs = foldl count_step [] (map majorVersion vs)"
  unfolding countVersions_def count_step_def by (simp add: foldl_map)

lemma count_step_keys:
  "map fst (count_step cs k) = (if k \<in> set (map fst cs) then map fst cs else map fst cs @ [k])"
  unfolding count_step_def by (simp add: update_keys del: set_map)

lemma count_step_map_of:
  "map_of (count_step cs x) k =
     (if k = x then Some ((case map_of cs x of None \<Rightarrow> 0 | Some n \<Rightarrow> n) + 1) else map_of cs k)"
  unfolding count_step_def by (simp add: update_conv')


lemma counts_inv:
  "map_of (foldl count_step [] ks) k = (if k \<in> set ks then Some (count_list ks k) else None)
   \<and> distinct (map fst (foldl count_step [] ks))
   \<and> set (map fst (foldl count_step [] ks)) = set ks
   \<and> (\<forall>pre post. map fst (foldl count_step [] ks) = pre @ k # post \<longrightarrow> set pre = set (takeWhile (\<lambda>y. y \<noteq> k) ks))"
proof (induction ks arbitrary: k rule: rev_induct)
  case Nil
  then show ?case by simp
next
  case (snoc x xs)
  let ?cs = "foldl count_step [] xs"
  have keys: "set (map fst ?cs) = set xs" and dist: "distinct (map fst ?cs)"
    using snoc.IH by blast+
  have mo: "\<And>k. map_of ?cs k = (if k \<in> set xs then Some (count_list xs k) else None)"
    using snoc.IH by blast
  have ord: "\<And>k pre post. map fst ?cs = pre @ k # post \<Longrightarrow> set pre = set (takeWhile (\<lambda>y. y \<noteq> k) xs)"
    using snoc.IH by blast
  have step: "foldl count_step [] (xs @ [x]) = count_step ?cs x" by simp
  have k1: "map fst (count_step ?cs x) = (if x \<in> set xs then map fst ?cs else map fst ?cs @ [x])"
    using keys by (simp add: count_step_keys del: set_map)
  have A: "map_of (count_step ?cs x) k = (if k \<in> set (xs @ [x]) then Some (count_list (xs @ [x]) k) else None)"
    by (auto simp: count_step_map_of mo)
  have B: "distinct (map fst (count_step ?cs x))"
    using k1 dist keys by auto
  have C: "set (map fst (count_step ?cs x)) = set (xs @ [x])"
    using k1 keys by auto
  have D: "\<forall>pre post. map fst (count_step ?cs x) = pre @ k # post \<longrightarrow> set pre = set (takeWhile (\<lambda>y. y \<noteq> k) (xs @ [x]))"
  proof (intro allI impI)
    fix pre post assume eq: "map fst (count_step ?cs x) = pre @ k # post"
    show "set pre = set (takeWhile (\<lambda>y. y \<noteq> k) (xs @ [x]))"
    proof (cases "x \<in> set xs")
      case True
      then have "map fst ?cs = pre @ k # post" using eq k1 by simp
      then have "set pre = set (takeWhile (\<lambda>y. y \<noteq> k) xs)" and "k \<in> set xs"
        using ord keys by (auto simp del: set_map) 
      then show ?thesis by (simp add: takeWhile_append1)
    next
      case False
      then have e2: "map fst ?cs @ [x] = pre @ k # post" using eq k1 by simp
      show ?thesis
      proof (cases post rule: rev_cases)
        case Nil
        then have pk: "pre = map fst ?cs" "k = x" using e2 by auto
        have "takeWhile (\<lambda>y. y \<noteq> x) (xs @ [x]) = xs"
          using False by (subst takeWhile_append2) auto
        then show ?thesis using pk keys by (simp del: set_map)
      next
        case (snoc post' y)
        then have "map fst ?cs = pre @ k # post'" using e2 by simp
        then have "set pre = set (takeWhile (\<lambda>y. y \<noteq> k) xs)" and "k \<in> set xs"
          using ord keys by (auto simp del: set_map)
        then show ?thesis by (simp add: takeWhile_append1)
      qed
    qed
  qed
  show ?case using A B C D unfolding step by blast
qed

lemma mostCommon_snoc:
  "mostCommon init (cs @ [(ver, count)]) =
     (if count > fst (mostCommon init cs) then (count, Some ver) else mostCommon init cs)"
  unfolding mostCommon_def by (simp add: case_prod_beta)

lemma mostCommon_inv:
  "(\<forall>(k, c) \<in> set cs. c \<le> fst (mostCommon (0, None) cs))
   \<and> (fst (mostCommon (0, None) cs) = 0 \<longrightarrow> snd (mostCommon (0, None) cs) = None)
   \<and> (0 < fst (mostCommon (0, None) cs) \<longrightarrow>
        (\<exists>pre k post. cs = pre @ (k, fst (mostCommon (0, None) cs)) # post
            \<and> snd (mostCommon (0, None) cs) = Some k
            \<and> (\<forall>(k', c') \<in> set pre. c' < fst (mostCommon (0, None) cs))))"
proof (induction cs rule: rev_induct)
  case Nil
  then show ?case by (simp add: mostCommon_def)
next
  case (snoc x cs)
  obtain ver count where x: "x = (ver, count)" by (cases x)
  let ?r = "mostCommon (0, None) cs"
  have ih1: "\<forall>(k, c) \<in> set cs. c \<le> fst ?r" using snoc.IH by blast
  have ih2: "fst ?r = 0 \<longrightarrow> snd ?r = None" using snoc.IH by blast
  have ih3: "0 < fst ?r \<longrightarrow> (\<exists>pre k post. cs = pre @ (k, fst ?r) # post
            \<and> snd ?r = Some k \<and> (\<forall>(k', c') \<in> set pre. c' < fst ?r))" using snoc.IH by blast
  show ?case
  proof (cases "count > fst ?r")
    case True
    then have r: "mostCommon (0, None) (cs @ [x]) = (count, Some ver)"
      by (simp add: x mostCommon_snoc)
    have le: "\<forall>(k, c) \<in> set cs. c < count" using ih1 True by fastforce
    have dec: "cs @ [x] = cs @ (ver, count) # []" by (simp add: x)
    have a: "\<forall>(k, c) \<in> set (cs @ [x]). c \<le> count" using le by (auto simp: x)
    have c: "\<exists>pre k post. cs @ [x] = pre @ (k, count) # post \<and> Some ver = Some k
            \<and> (\<forall>(k', c') \<in> set pre. c' < count)"
      using dec le by blast
    show ?thesis unfolding r using a c True by simp
  next
    case False
    then have r: "mostCommon (0, None) (cs @ [x]) = ?r"
      by (simp add: x mostCommon_snoc)
    have a: "\<forall>(k, c) \<in> set (cs @ [x]). c \<le> fst ?r" using ih1 False by (auto simp: x)
    have c: "0 < fst ?r \<longrightarrow> (\<exists>pre k post. cs @ [x] = pre @ (k, fst ?r) # post
            \<and> snd ?r = Some k \<and> (\<forall>(k', c') \<in> set pre. c' < fst ?r))"
    proof
      assume "0 < fst ?r"
      then obtain pre k post where d: "cs = pre @ (k, fst ?r) # post" "snd ?r = Some k"
          "\<forall>(k', c') \<in> set pre. c' < fst ?r" using ih3 by blast
      have "cs @ [x] = pre @ (k, fst ?r) # (post @ [x])" using d(1) by simp
      then show "\<exists>pre k post. cs @ [x] = pre @ (k, fst ?r) # post
            \<and> snd ?r = Some k \<and> (\<forall>(k', c') \<in> set pre. c' < fst ?r)"
        using d(2,3) by blast
    qed
    show ?thesis unfolding r using a ih2 c by blast
  qed
qed

lemma countVersions_entry:
  assumes "(k, c) \<in> set (countVersions vs)"
  shows "k \<in> set (map majorVersion vs) \<and> c = count_list (map majorVersion vs) k"
proof -
  let ?ks = "map majorVersion vs"
  let ?cs = "foldl count_step [] ?ks"
  have in_cs: "(k, c) \<in> set ?cs" using assms by (simp add: countVersions_majors)
  have "distinct (map fst ?cs)" using counts_inv[of ?ks k] by blast
  then have "map_of ?cs k = Some c" using in_cs by (rule map_of_is_SomeI)
  moreover have "map_of ?cs k = (if k \<in> set ?ks then Some (count_list ?ks k) else None)"
    using counts_inv[of ?ks k] by blast
  ultimately show ?thesis by (auto split: if_splits)
qed

text \<open>
  C5. Without an explicit target the report of a project with no record has no target;
  otherwise its target is a major of some record that no major occurs more often than,
  and every major first seen before it in scan order occurs strictly less often: the
  most frequent major, the first seen of those that tie.
\<close>

theorem generateReport_infers_majority:
  assumes "generateReport P w projectRoot None = Inr rep"
  shows "(versions rep = [] \<longrightarrow> targetVersion rep = None) \<and>
         (versions rep \<noteq> [] \<longrightarrow>
            (\<exists>m. targetVersion rep = Some m \<and> m \<in> set (map majorVersion (versions rep)) \<and>
                 (\<forall>x. count_list (map majorVersion (versions rep)) x
                        \<le> count_list (map majorVersion (versions rep)) m) \<and>
                 (\<forall>x \<in> set (takeWhile (\<lambda>y. y \<noteq> m) (map majorVersion (versions rep))).
                    count_list (map majorVersion (versions rep)) x
                      < count_list (map majorVersion (versions rep)) m)))"
proof -
  obtain vs where scan: "scanVersions P w projectRoot = Inr vs"
    using assms unfolding generateReport_def bindE_def by (auto split: sum.splits)
  have vrep: "versions rep = vs"
    and trep: "targetVersion rep = (if vs \<noteq> [] then snd (mostCommon (0, None) (countVersions vs)) else None)"
    using assms scan unfolding generateReport_def bindE_def by (auto simp: Let_def)
  let ?ks = "map majorVersion vs"
  let ?cs = "countVersions vs"
  let ?r = "mostCommon (0, None) ?cs"
  have part2: "\<exists>m. snd ?r = Some m \<and> m \<in> set ?ks \<and>
                 (\<forall>x. count_list ?ks x \<le> count_list ?ks m) \<and>
                 (\<forall>x \<in> set (takeWhile (\<lambda>y. y \<noteq> m) ?ks). count_list ?ks x < count_list ?ks m)"
    if ne: "vs \<noteq> []"
  proof -
    have keys: "set (map fst ?cs) = set ?ks"
      using counts_inv[of ?ks 0] by (simp add: countVersions_majors)
    have le: "\<forall>(k, c) \<in> set ?cs. c \<le> fst ?r" using mostCommon_inv[of ?cs] by blast
    obtain k0 where "k0 \<in> set ?ks" using ne by (cases vs) auto
    then have "k0 \<in> set (map fst ?cs)" using keys by simp
    then obtain c0 where e0: "(k0, c0) \<in> set ?cs" by auto
    then have "c0 = count_list ?ks k0" "k0 \<in> set ?ks" using countVersions_entry by blast+
    then have "0 < c0" using count_list_0_iff[of "map majorVersion vs" k0] by fastforce
    moreover have "c0 \<le> fst ?r" using le e0 by blast
    ultimately have pos: "0 < fst ?r" by simp
    then obtain pre m post where dec: "?cs = pre @ (m, fst ?r) # post" and sm: "snd ?r = Some m"
      and before: "\<forall>(k', c') \<in> set pre. c' < fst ?r"
      using mostCommon_inv[of ?cs] by blast
    have "(m, fst ?r) \<in> set ?cs" by (subst dec) simp
    then have m_in: "m \<in> set ?ks" and mx: "fst ?r = count_list ?ks m"
      using countVersions_entry by blast+
    have all_le: "count_list ?ks x \<le> count_list ?ks m" for x
    proof (cases "x \<in> set ?ks")
      case True
      then have "x \<in> set (map fst ?cs)" using keys by simp
      then obtain c where e: "(x, c) \<in> set ?cs" by auto
      then have "c = count_list ?ks x" using countVersions_entry by blast
      then show ?thesis using le e mx by fastforce
    next
      case False
      then show ?thesis by (simp add: count_list_0_iff)
    qed
    have "map fst (foldl count_step [] ?ks) = map fst pre @ m # map fst post"
      using arg_cong[OF dec, of "map fst"] by (simp add: countVersions_majors)
    then have pre_set: "set (map fst pre) = set (takeWhile (\<lambda>y. y \<noteq> m) ?ks)"
      using counts_inv[of ?ks m] by blast
    have earlier: "count_list ?ks x < count_list ?ks m"
      if "x \<in> set (takeWhile (\<lambda>y. y \<noteq> m) ?ks)" for x
    proof -
      from that have "x \<in> set (map fst pre)" using pre_set by simp
      then obtain c where e: "(x, c) \<in> set pre" by auto
      then have "(x, c) \<in> set ?cs" by (subst dec) simp
      then have "c = count_list ?ks x" using countVersions_entry by blast
      then show ?thesis using before e mx by fastforce
    qed
    show ?thesis using sm m_in all_le earlier by blast
  qed
  show ?thesis
    unfolding vrep trep using part2 by simp
qed


section \<open>File system facts\<close>

lemma writeFileSync_ok:
  assumes "writeFileSync w p c = (Inr u, w')"
  shows "nodes w' = (nodes w)(p \<mapsto> File c)" "rdeny w' = rdeny w" "wdeny w' = wdeny w"
    "clock w' = clock w" "ticks w' = ticks w" "\<not> wdeny w p"
  using assms unfolding writeFileSync_def
  by (auto split: if_splits option.splits node.splits)

lemma writeFileSync_failed:
  "writeFileSync w p c = (Inl e, w') \<Longrightarrow> w' = w"
  unfolding writeFileSync_def by (auto split: if_splits option.splits node.splits)

lemma writeFileSync_denied:
  "wdeny w p \<Longrightarrow> writeFileSync w p c = (Inl EACCES, w)"
  unfolding writeFileSync_def by simp

lemma writeFileSync_file:
  "\<not> wdeny w p \<Longrightarrow> nodes w p = Some (File old) \<Longrightarrow>
   writeFileSync w p c = (Inr (), w\<lparr>nodes := (nodes w)(p \<mapsto> File c)\<rparr>)"
  unfolding writeFileSync_def by simp

lemma readFileSync_Inr:
  "readFileSync w p = Inr c \<longleftrightarrow> nodes w p = Some (File c) \<and> \<not> rdeny w p"
  unfolding readFileSync_def by (auto split: option.splits node.splits)

lemma backupFile_unfold:
  "backupFile w p =
     (case readFileSync w p of
        Inl e \<Rightarrow> (Inl e, w\<lparr>ticks := Suc (ticks w)\<rparr>)
      | Inr old \<Rightarrow>
          (case writeFileSync (w\<lparr>ticks := Suc (ticks w)\<rparr>)
                  (p @ ''.backup.'' @ toString (clock w (ticks w))) old of
             (Inl e, w2) \<Rightarrow> (Inl e, w2)
           | (Inr u, w2) \<Rightarrow> (Inr (p @ ''.backup.'' @ toString (clock w (ticks w))), w2)))"
  unfolding backupFile_def copyFileSync_def Date_now_def Let_def readFileSync_def
  by (simp split: option.splits node.splits prod.splits sum.splits)

lemma backupFile_ok:
  assumes "backupFile w p = (Inr bp, w')"
  shows "bp = p @ ''.backup.'' @ toString (clock w (ticks w))"
    "\<exists>old. readFileSync w p = Inr old \<and> nodes w' = (nodes w)(bp \<mapsto> File old)"
    "rdeny w' = rdeny w" "wdeny w' = wdeny w" "clock w' = clock w" "ticks w' = Suc (ticks w)"
proof -
  let ?w1 = "w\<lparr>ticks := Suc (ticks w)\<rparr>"
  let ?bp = "p @ ''.backup.'' @ toString (clock w (ticks w))"
  obtain old where rd: "readFileSync w p = Inr old"
    using assms unfolding backupFile_unfold by (auto split: sum.splits)
  have wr: "writeFileSync ?w1 ?bp old = (Inr (), w')" and bp: "bp = ?bp"
    using assms unfolding backupFile_unfold rd by (auto split: sum.splits prod.splits)
  show "bp = ?bp" by (rule bp)
  show "\<exists>old. readFileSync w p = Inr old \<and> nodes w' = (nodes w)(bp \<mapsto> File old)"
    using rd writeFileSync_ok(1)[OF wr] bp by simp
  show "rdeny w' = rdeny w" using writeFileSync_ok(2)[OF wr] by simp
  show "wdeny w' = wdeny w" using writeFileSync_ok(3)[OF wr] by simp
  show "clock w' = clock w" using writeFileSync_ok(4)[OF wr] by simp
  show "ticks w' = Suc (ticks w)" using writeFileSync_ok(5)[OF wr] by simp
qed

lemma backupFile_failed:
  assumes "backupFile w p = (Inl e, w')"
  shows "w' = w\<lparr>ticks := Suc (ticks w)\<rparr>"
  using assms unfolding backupFile_unfold
  by (auto split: sum.splits prod.splits dest!: writeFileSync_failed)

lemma backup_path_differs: "p @ ''.backup.'' @ t \<noteq> p"
  by simp

lemma backupAndWrite_ok:
  assumes "backupAndWrite w opts p c = (Inr b, w')"
  shows "b = backup opts" "nodes w' p = Some (File c)" "rdeny w' = rdeny w" "wdeny w' = wdeny w"
    "backup opts \<Longrightarrow>
       \<exists>bp w1 old. backupFile w p = (Inr bp, w1) \<and> writeFileSync w1 p c = (Inr (), w') \<and>
          readFileSync w p = Inr old \<and> nodes w1 bp = Some (File old) \<and>
          nodes w' bp = Some (File old) \<and>
          bp = p @ ''.backup.'' @ toString (clock w (ticks w)) \<and> bp \<noteq> p"
    "\<not> backup opts \<Longrightarrow> writeFileSync w p c = (Inr (), w')"
proof -
  show "b = backup opts"
    using assms unfolding backupAndWrite_def by (auto split: if_splits sum.splits prod.splits)
  show nw: "\<not> backup opts \<Longrightarrow> writeFileSync w p c = (Inr (), w')"
    using assms unfolding backupAndWrite_def by (auto split: if_splits sum.splits prod.splits)
  have bk: "\<exists>bp w1. backupFile w p = (Inr bp, w1) \<and> writeFileSync w1 p c = (Inr (), w')"
    if "backup opts"
    using assms that unfolding backupAndWrite_def by (auto split: if_splits sum.splits prod.splits)
  show "backup opts \<Longrightarrow>
       \<exists>bp w1 old. backupFile w p = (Inr bp, w1) \<and> writeFileSync w1 p c = (Inr (), w') \<and>
          readFileSync w p = Inr old \<and> nodes w1 bp = Some (File old) \<and>
          nodes w' bp = Some (File old) \<and>
          bp = p @ ''.backup.'' @ toString (clock w (ticks w)) \<and> bp \<noteq> p"
  proof -
    assume "backup opts"
    then obtain bp w1 where b1: "backupFile w p = (Inr bp, w1)"
      and b2: "writeFileSync w1 p c = (Inr (), w')" using bk by blast
    obtain old where rd: "readFileSync w p = Inr old" and n1: "nodes w1 = (nodes w)(bp \<mapsto> File old)"
      using backupFile_ok(2)[OF b1] by blast
    have bp: "bp = p @ ''.backup.'' @ toString (clock w (ticks w))" by (rule backupFile_ok(1)[OF b1])
    then have ne: "bp \<noteq> p" by simp
    have "nodes w' = (nodes w1)(p \<mapsto> File c)" by (rule writeFileSync_ok(1)[OF b2])
    then have "nodes w' bp = Some (File old)" using n1 ne by simp
    then show ?thesis using b1 b2 rd n1 bp ne by auto
  qed
  show "nodes w' p = Some (File c)"
  proof (cases "backup opts")
    case True
    then obtain bp w1 where "writeFileSync w1 p c = (Inr (), w')" using bk by blast
    then show ?thesis using writeFileSync_ok(1) by fastforce
  next
    case False
    then show ?thesis using writeFileSync_ok(1)[OF nw] by simp
  qed
  show "rdeny w' = rdeny w"
  proof (cases "backup opts")
    case True
    then obtain bp w1 where "backupFile w p = (Inr bp, w1)" "writeFileSync w1 p c = (Inr (), w')"
      using bk by blast
    then show ?thesis using writeFileSync_ok(2) backupFile_ok(3) by fastforce
  next
    case False
    then show ?thesis using writeFileSync_ok(2)[OF nw] by simp
  qed
  show "wdeny w' = wdeny w"
  proof (cases "backup opts")
    case True
    then obtain bp w1 where "backupFile w p = (Inr bp, w1)" "writeFileSync w1 p c = (Inr (), w')"
      using bk by blast
    then show ?thesis using writeFileSync_ok(3) backupFile_ok(4) by fastforce
  next
    case False
    then show ?thesis using writeFileSync_ok(3)[OF nw] by simp
  qed
qed

text \<open>A successful result of an updater that is not a dry run comes from the \<open>try\<close> block.\<close>

lemma finish_success:
  assumes "finish w opts p rel old new c = (r, w')" "success r" "\<not> dryRun opts"
  shows "\<exists>b. backupAndWrite w opts p c = (Inr b, w') \<and> backedUp r = Some b"
  using assms unfolding finish_def result_ok_def result_failed_def
  by (auto split: prod.splits sum.splits)

lemma updateVersionFile_success:
  assumes "updateVersionFile P w v target opts = (Inr r, w')" "success r" "\<not> dryRun opts"
  shows "\<exists>b c. backupAndWrite w opts (VersionInfo.file v) c = (Inr b, w') \<and> backedUp r = Some b"
proof -
  consider (a) "updateNvmrc P w (VersionInfo.file v) target opts = (Inr r, w')"
    | (b) "updatePackageJson P w (VersionInfo.file v) target opts = (Inr r, w')"
    | (c) "updateDockerfile P w (VersionInfo.file v) target opts = (Inr r, w')"
    | (d) "updateDockerCompose P w (VersionInfo.file v) target opts = (Inr r, w')"
    | (e) "updateGitHubWorkflow P w (VersionInfo.file v) target opts = (Inr r, w')"
    | (f) "updateNodeVersionFile P w (VersionInfo.file v) target opts = (Inr r, w')"
    | (g) "updateToolVersions P w (VersionInfo.file v) target opts = (Inr r, w')"
    using assms(1,2) unfolding updateVersionFile_def result_failed_def
    by (auto split: if_splits)
  then show ?thesis
  proof cases
    case a
    then show ?thesis using assms(2,3) unfolding updateNvmrc_def
      by (auto split: sum.splits prod.splits dest!: finish_success)
  next
    case b
    then show ?thesis using assms(2,3) unfolding updatePackageJson_def Let_def result_ok_def result_failed_def
      by (auto split: sum.splits prod.splits option.splits)
  next
    case c
    then show ?thesis using assms(2,3) unfolding updateDockerfile_def Let_def result_failed_def
      by (auto split: sum.splits prod.splits option.splits dest!: finish_success)
  next
    case d
    then show ?thesis using assms(2,3) unfolding updateDockerCompose_def Let_def result_failed_def
      by (auto split: sum.splits prod.splits option.splits dest!: finish_success)
  next
    case e
    then show ?thesis using assms(2,3) unfolding updateGitHubWorkflow_def Let_def result_failed_def
      by (auto split: sum.splits prod.splits option.splits if_splits dest!: finish_success)
  next
    case f
    then show ?thesis using assms(2,3) unfolding updateNodeVersionFile_def
      by (auto split: sum.splits prod.splits dest!: finish_success)
  next
    case g
    then show ?thesis using assms(2,3) unfolding updateToolVersions_def Let_def result_failed_def
      by (auto split: sum.splits prod.splits option.splits dest!: finish_success)
  qed
qed

section \<open>The backup\<close>

text \<open>
  C6. When an update that is not a dry run, with the backup option on, ends in success,
  the backup was made first and the write came after it: the backup went to the path
  of the file followed by \<open>.backup.\<close> and the time stamp, which is not the path of the
  file; it holds what the file held before, still holds it after the write, and the
  result says \<open>backedUp\<close>.
\<close>

theorem backup_made_before_write:
  assumes "updateVersionFile P w v target opts = (Inr r, w')"
    and "\<not> dryRun opts" and "backup opts" and "success r"
  shows "\<exists>bp w1 old new.
           backupFile w (VersionInfo.file v) = (Inr bp, w1) \<and>
           writeFileSync w1 (VersionInfo.file v) new = (Inr (), w') \<and>
           bp = VersionInfo.file v @ ''.backup.'' @ toString (clock w (ticks w)) \<and>
           bp \<noteq> VersionInfo.file v \<and>
           readFileSync w (VersionInfo.file v) = Inr old \<and>
           nodes w1 bp = Some (File old) \<and> nodes w' bp = Some (File old) \<and>
           nodes w' (VersionInfo.file v) = Some (File new) \<and>
           backedUp r = Some True"
proof -
  obtain b c where bw: "backupAndWrite w opts (VersionInfo.file v) c = (Inr b, w')"
    and br: "backedUp r = Some b"
    using updateVersionFile_success[OF assms(1,4,2)] by blast
  have "b = True" using backupAndWrite_ok(1)[OF bw] assms(3) by simp
  moreover have "nodes w' (VersionInfo.file v) = Some (File c)" by (rule backupAndWrite_ok(2)[OF bw])
  ultimately show ?thesis using backupAndWrite_ok(5)[OF bw assms(3)] br by blast
qed

section \<open>Shapes of the matches\<close>

lemma lit_shape: "lit ci p s = Some r \<Longrightarrow> \<exists>u. s = u @ r \<and> length u = length p"
proof (induction ci p s rule: lit.induct)
  case (1 ci s)
  then show ?case by simp
next
  case (2 ci p ps)
  then show ?case by simp
next
  case (3 ci p ps c cs)
  then obtain u where "cs = u @ r" "length u = length ps" by (auto split: if_splits)
  then have "c # cs = (c # u) @ r \<and> length (c # u) = length (p # ps)" by simp
  then show ?case by blast
qed

lemma digits1_shape:
  assumes "digits1 s = Some (ds, r)"
  shows "s = ds @ r" "ds \<noteq> []" "\<forall>c \<in> set ds. is_digit c" "r = [] \<or> \<not> is_digit (hd r)"
    "takeWhile is_digit s = ds"
proof -
  have ds: "ds = takeWhile is_digit s" and r: "r = dropWhile is_digit s" and ne: "ds \<noteq> []"
    using assms unfolding digits1_def by (auto split: if_splits)
  show "s = ds @ r" unfolding ds r by simp
  show "ds \<noteq> []" by (rule ne)
  show "\<forall>c \<in> set ds. is_digit c" unfolding ds by (auto dest: set_takeWhileD)
  show "r = [] \<or> \<not> is_digit (hd r)" unfolding r using hd_dropWhile by blast
  show "takeWhile is_digit s = ds" by (simp add: ds)
qed

lemma takeWhile_digits_append:
  assumes "\<forall>c \<in> set ds. is_digit c" "r = [] \<or> \<not> is_digit (hd r)"
  shows "takeWhile is_digit (ds @ r) = ds"
proof -
  have "takeWhile is_digit (ds @ r) = ds @ takeWhile is_digit r"
    using assms(1) by (simp add: takeWhile_append2)
  moreover have "takeWhile is_digit r = []" using assms(2) by (cases r) auto
  ultimately show ?thesis by simp
qed

lemma rx_version_suffix_shape:
  assumes "rx_version_suffix s = Some (gs, r)"
  shows "\<exists>ds sfx. gs = [Some ds, if sfx = [] then None else Some sfx] \<and> s = ds @ sfx @ r \<and>
           ds \<noteq> [] \<and> (\<forall>c \<in> set ds. is_digit c) \<and> (sfx = [] \<or> \<not> is_digit (hd sfx)) \<and>
           (\<forall>c \<in> set sfx. \<not> is_space c) \<and> (r = [] \<or> is_space (hd r))"
proof -
  obtain ds r0 where d: "digits1 s = Some (ds, r0)"
    using assms unfolding rx_version_suffix_def by (auto split: option.splits)
  let ?sfx = "takeWhile (\<lambda>c. \<not> is_space c) r0"
  have gs: "gs = [Some ds, if ?sfx = [] then None else Some ?sfx]"
    and r: "r = dropWhile (\<lambda>c. \<not> is_space c) r0"
    using assms d unfolding rx_version_suffix_def by (auto simp: Let_def)
  have "r0 = ?sfx @ r" unfolding r by simp
  then have s: "s = ds @ ?sfx @ r" using digits1_shape(1)[OF d] by simp
  have hd: "?sfx = [] \<or> \<not> is_digit (hd ?sfx)"
    using digits1_shape(4)[OF d] by (cases r0) auto
  have sp: "\<forall>c \<in> set ?sfx. \<not> is_space c" by (auto dest: set_takeWhileD)
  have rr: "r = [] \<or> is_space (hd r)" unfolding r using hd_dropWhile[of "\<lambda>c. \<not> is_space c" r0] by blast
  show ?thesis using gs s digits1_shape(2,3)[OF d] hd sp rr by blast
qed

lemma rx_from_shape:
  assumes "rx_from s = Some (gs, r)"
  shows "\<exists>k ds sfx. gs = [Some ds, if sfx = [] then None else Some sfx] \<and> s = k @ ds @ sfx @ r \<and>
           ds \<noteq> [] \<and> (\<forall>c \<in> set ds. is_digit c) \<and> (sfx = [] \<or> \<not> is_digit (hd sfx)) \<and>
           (\<forall>c \<in> set sfx. \<not> is_space c) \<and> (r = [] \<or> is_space (hd r))"
proof -
  obtain r1 where l1: "lit True ''FROM'' s = Some r1"
    using assms unfolding rx_from_def by (auto split: option.splits)
  obtain r2 where l2: "lit True ''node:'' (dropWhile is_space r1) = Some r2"
    and vs: "rx_version_suffix r2 = Some (gs, r)"
    using assms l1 unfolding rx_from_def by (auto split: option.splits if_splits)
  obtain u1 where u1: "s = u1 @ r1" using lit_shape[OF l1] by blast
  obtain u2 where u2: "dropWhile is_space r1 = u2 @ r2" using lit_shape[OF l2] by blast
  have "r1 = takeWhile is_space r1 @ u2 @ r2" using u2 takeWhile_dropWhile_id[of is_space r1] by simp
  then have s2: "s = (u1 @ takeWhile is_space r1 @ u2) @ r2" using u1 by simp
  obtain ds sfx where g: "gs = [Some ds, if sfx = [] then None else Some sfx]"
    and r2: "r2 = ds @ sfx @ r"
    and rest: "ds \<noteq> []" "\<forall>c \<in> set ds. is_digit c" "sfx = [] \<or> \<not> is_digit (hd sfx)"
      "\<forall>c \<in> set sfx. \<not> is_space c" "r = [] \<or> is_space (hd r)"
    using rx_version_suffix_shape[OF vs] by blast
  have "s = (u1 @ takeWhile is_space r1 @ u2) @ ds @ sfx @ r" using s2 r2 by simp
  then show ?thesis using g rest by blast
qed

lemma rx_image_shape:
  assumes "rx_image s = Some (gs, r)"
  shows "\<exists>k ds sfx. gs = [Some ds, if sfx = [] then None else Some sfx] \<and> s = k @ ds @ sfx @ r \<and>
           ds \<noteq> [] \<and> (\<forall>c \<in> set ds. is_digit c) \<and> (sfx = [] \<or> \<not> is_digit (hd sfx)) \<and>
           (\<forall>c \<in> set sfx. \<not> is_space c) \<and> (r = [] \<or> is_space (hd r))"
proof -
  obtain r1 where l1: "lit True ''image:'' s = Some r1"
    using assms unfolding rx_image_def by (auto split: option.splits)
  obtain r2 where l2: "lit True ''node:'' (dropWhile is_space r1) = Some r2"
    and vs: "rx_version_suffix r2 = Some (gs, r)"
    using assms l1 unfolding rx_image_def by (auto split: option.splits if_splits)
  obtain u1 where u1: "s = u1 @ r1" using lit_shape[OF l1] by blast
  obtain u2 where u2: "dropWhile is_space r1 = u2 @ r2" using lit_shape[OF l2] by blast
  have "r1 = takeWhile is_space r1 @ u2 @ r2" using u2 takeWhile_dropWhile_id[of is_space r1] by simp
  then have s2: "s = (u1 @ takeWhile is_space r1 @ u2) @ r2" using u1 by simp
  obtain ds sfx where g: "gs = [Some ds, if sfx = [] then None else Some sfx]"
    and r2: "r2 = ds @ sfx @ r"
    and rest: "ds \<noteq> []" "\<forall>c \<in> set ds. is_digit c" "sfx = [] \<or> \<not> is_digit (hd sfx)"
      "\<forall>c \<in> set sfx. \<not> is_space c" "r = [] \<or> is_space (hd r)"
    using rx_version_suffix_shape[OF vs] by blast
  have "s = (u1 @ takeWhile is_space r1 @ u2) @ ds @ sfx @ r" using s2 r2 by simp
  then show ?thesis using g rest by blast
qed

lemma match_here_SomeD:
  "match_here p s = Some m \<Longrightarrow>
     leftContext m = [] \<and> p s = Some (groups m, rightContext m) \<and>
     matched m = take (length s - length (rightContext m)) s"
  unfolding match_here_def by (auto split: option.splits)

lemma js_match_SomeD:
  "js_match p s = Some m \<Longrightarrow>
     \<exists>s'. s = leftContext m @ s' \<and> p s' = Some (groups m, rightContext m) \<and>
          matched m = take (length s' - length (rightContext m)) s'"
proof (induction s arbitrary: m)
  case Nil
  then show ?case using match_here_SomeD[of p "[]" m] by simp
next
  case (Cons c cs)
  show ?case
  proof (cases "match_here p (c # cs)")
    case None
    then obtain m' where m': "js_match p cs = Some m'" and m: "m = m'\<lparr>leftContext := c # leftContext m'\<rparr>"
      using Cons.prems by auto
    from Cons.IH[OF m'] obtain s' where "cs = leftContext m' @ s'"
      "p s' = Some (groups m', rightContext m')"
      "matched m' = take (length s' - length (rightContext m')) s'" by blast
    then show ?thesis using m by auto
  next
    case (Some m0)
    then have "m = m0" using Cons.prems by simp
    then show ?thesis using match_here_SomeD[OF Some] by auto
  qed
qed

lemma docker_match_shape:
  assumes "rx = rx_from \<or> rx = rx_image" "js_match rx s = Some m"
  shows "\<exists>k. s = leftContext m @ matched m @ rightContext m \<and>
           matched m = k @ group_or_empty m 1 @ group_or_empty m 2 \<and>
           group_or_empty m 1 \<noteq> [] \<and> (\<forall>c \<in> set (group_or_empty m 1). is_digit c) \<and>
           (group_or_empty m 2 = [] \<or> \<not> is_digit (hd (group_or_empty m 2))) \<and>
           (\<forall>c \<in> set (group_or_empty m 2). \<not> is_space c)"
proof -
  obtain s' where s: "s = leftContext m @ s'" and ps: "rx s' = Some (groups m, rightContext m)"
    and mt: "matched m = take (length s' - length (rightContext m)) s'"
    using js_match_SomeD[OF assms(2)] by blast
  have "\<exists>k ds sfx. groups m = [Some ds, if sfx = [] then None else Some sfx] \<and>
           s' = k @ ds @ sfx @ rightContext m \<and>
           ds \<noteq> [] \<and> (\<forall>c \<in> set ds. is_digit c) \<and> (sfx = [] \<or> \<not> is_digit (hd sfx)) \<and>
           (\<forall>c \<in> set sfx. \<not> is_space c) \<and> (rightContext m = [] \<or> is_space (hd (rightContext m)))"
    using assms(1)
  proof
    assume "rx = rx_from"
    then show ?thesis using ps by (intro rx_from_shape) simp
  next
    assume "rx = rx_image"
    then show ?thesis using ps by (intro rx_image_shape) simp
  qed
  then obtain k ds sfx where g: "groups m = [Some ds, if sfx = [] then None else Some sfx]"
    and s': "s' = k @ ds @ sfx @ rightContext m" and ds: "ds \<noteq> []" "\<forall>c \<in> set ds. is_digit c"
    and sf: "sfx = [] \<or> \<not> is_digit (hd sfx)" "\<forall>c \<in> set sfx. \<not> is_space c"
    by blast
  have g1: "group_or_empty m 1 = ds" and g2: "group_or_empty m 2 = sfx"
    using g unfolding group_or_empty_def group_def by auto
  have "matched m = k @ ds @ sfx" unfolding mt by (subst (1 2) s') simp
  then show ?thesis using s s' g1 g2 ds sf by auto
qed

lemma get_substitution_plain:
  "CHR ''$'' \<notin> set t \<Longrightarrow> get_substitution m t = t"
  by (induction m t rule: get_substitution.induct) auto





section \<open>Rewriting a Docker tag\<close>


section \<open>Where a record comes from\<close>

lemma group1_single: "groups m = [Some ds] \<Longrightarrow> group_or_empty m 1 = ds"
  unfolding group_or_empty_def group_def by simp

lemma rx_int_shape:
  assumes "rx_int s = Some (gs, r)"
  shows "\<exists>ds. gs = [Some ds] \<and> s = ds @ r \<and> ds \<noteq> [] \<and> (\<forall>c \<in> set ds. is_digit c) \<and>
           (r = [] \<or> \<not> is_digit (hd r))"
proof -
  obtain ds where d: "digits1 s = Some (ds, r)" and g: "gs = [Some ds]"
    using assms unfolding rx_int_def by (auto split: option.splits)
  show ?thesis using g digits1_shape(1-4)[OF d] by blast
qed

lemma rx_quoted_int_shape:
  assumes "rx_quoted_int s = Some (gs, r)"
  shows "\<exists>ds. gs = [Some ds] \<and> ds \<noteq> [] \<and> (\<forall>c \<in> set ds. is_digit c)"
proof -
  obtain ds r0 where d: "digits1 (opt_quote (dropWhile is_space s)) = Some (ds, r0)"
    and g: "gs = [Some ds]"
    using assms unfolding rx_quoted_int_def by (auto split: option.splits)
  show ?thesis using g digits1_shape(2,3)[OF d] by blast
qed

lemma rx_node_version_shape:
  assumes "rx_node_version s = Some (gs, r)"
  shows "\<exists>ds. gs = [Some ds] \<and> ds \<noteq> [] \<and> (\<forall>c \<in> set ds. is_digit c)"
  using assms rx_quoted_int_shape unfolding rx_node_version_def by (auto split: option.splits)

lemma rx_node_env_shape:
  assumes "rx_node_env s = Some (gs, r)"
  shows "\<exists>ds. gs = [Some ds] \<and> ds \<noteq> [] \<and> (\<forall>c \<in> set ds. is_digit c)"
  using assms rx_quoted_int_shape unfolding rx_node_env_def by (auto split: option.splits)

lemma rx_nodejs_shape:
  assumes "rx_nodejs s = Some (gs, r)"
  shows "\<exists>ds. gs = [Some ds] \<and> ds \<noteq> [] \<and> (\<forall>c \<in> set ds. is_digit c)"
proof -
  obtain r1 ds where d: "digits1 (dropWhile is_space r1) = Some (ds, r)" and g: "gs = [Some ds]"
    using assms unfolding rx_nodejs_def by (auto split: option.splits if_splits)
  show ?thesis using g digits1_shape(2,3)[OF d] by blast
qed

lemma first_integer_run_digits:
  assumes "ds \<noteq> []" "\<forall>c \<in> set ds. is_digit c" "r = [] \<or> \<not> is_digit (hd r)"
  shows "first_integer_run (ds @ r) = ds"
proof -
  obtain d ds' where ds: "ds = d # ds'" using assms(1) by (cases ds) auto
  then have "is_digit d" using assms(2) by simp
  then have "dropWhile (\<lambda>c. \<not> is_digit c) (ds @ r) = ds @ r" unfolding ds by simp
  then show ?thesis unfolding first_integer_run_def
    using takeWhile_digits_append[OF assms(2,3)] by simp
qed

lemma first_integer_run_skip:
  "\<not> is_digit c \<Longrightarrow> first_integer_run (c # s) = first_integer_run s"
  unfolding first_integer_run_def by simp

lemma group_or_empty_leftContext [simp]:
  "group_or_empty (m\<lparr>leftContext := l\<rparr>) i = group_or_empty m i"
  unfolding group_or_empty_def group_def by simp

lemma parseInt_takeWhile: "parseInt (takeWhile is_digit s) = parseInt s"
  unfolding parseInt_def by simp

lemma js_match_rx_int:
  "js_match rx_int s =
     (if first_integer_run s = [] then None
      else Some \<lparr>leftContext = takeWhile (\<lambda>c. \<not> is_digit c) s, matched = first_integer_run s,
                 groups = [Some (first_integer_run s)],
                 rightContext = dropWhile is_digit (dropWhile (\<lambda>c. \<not> is_digit c) s)\<rparr>)"
proof (induction s)
  case Nil
  then show ?case by (simp add: match_here_def rx_int_def digits1_def first_integer_run_def)
next
  case (Cons c cs)
  show ?case
  proof (cases "is_digit c")
    case True
    have "length (c # cs) - length (dropWhile is_digit cs) = length (c # takeWhile is_digit cs)"
      using takeWhile_dropWhile_id[of is_digit cs] length_append[of "takeWhile is_digit cs" "dropWhile is_digit cs"]
      by (metis add_diff_cancel_right' length_Cons plus_nat.simps(2))
    then have "take (length (c # cs) - length (dropWhile is_digit cs)) (c # cs) = c # takeWhile is_digit cs"
      using takeWhile_dropWhile_id[of is_digit cs]
      by (metis append_Cons append_eq_conv_conj)
    then show ?thesis using True
      by (simp add: match_here_def rx_int_def digits1_def first_integer_run_def)
  next
    case False
    then have "match_here rx_int (c # cs) = None"
      by (simp add: match_here_def rx_int_def digits1_def)
    then show ?thesis using False Cons.IH
      by (simp add: first_integer_run_skip)
  qed
qed

lemma extractMajorVersion_first_run:
  "extractMajorVersion s = parseInt (first_integer_run s)"
  unfolding extractMajorVersion_def js_match_rx_int
  by (simp add: group_or_empty_def group_def) (simp add: parseInt_def)

lemma first_run_nvm:
  assumes "match_here rx_nvm content = Some m"
  shows "first_integer_run content = group_or_empty m 1" "group_or_empty m 1 \<noteq> []"
proof -
  let ?s = "case content of [] \<Rightarrow> [] | c # cs \<Rightarrow> if c = CHR ''v'' then cs else c # cs"
  have "rx_int ?s = Some (groups m, rightContext m)"
    using match_here_SomeD[OF assms] unfolding rx_nvm_def by simp
  then obtain ds where g: "groups m = [Some ds]" and s: "?s = ds @ rightContext m"
    and ds: "ds \<noteq> []" "\<forall>c \<in> set ds. is_digit c"
    and r: "rightContext m = [] \<or> \<not> is_digit (hd (rightContext m))"
    using rx_int_shape by blast
  have g1: "group_or_empty m 1 = ds" using g by (rule group1_single)
  have run: "first_integer_run (ds @ rightContext m) = ds"
    by (rule first_integer_run_digits[OF ds r])
  have "first_integer_run content = ds"
  proof (cases content)
    case Nil
    then show ?thesis using s ds by simp
  next
    case (Cons c cs)
    show ?thesis
    proof (cases "c = CHR ''v''")
      case True
      then have "cs = ds @ rightContext m" using s Cons by simp
      moreover have "\<not> is_digit c" using True by (simp add: is_digit_def)
      ultimately show ?thesis using run Cons by (simp add: first_integer_run_skip)
    next
      case False
      then have "content = ds @ rightContext m" using s Cons by simp
      then show ?thesis using run by simp
    qed
  qed
  then show "first_integer_run content = group_or_empty m 1" using g1 by simp
  show "group_or_empty m 1 \<noteq> []" using g1 ds by simp
qed

lemma first_run_docker:
  assumes "rx = rx_from \<or> rx = rx_image" "js_match rx content = Some m"
  shows "first_integer_run (group_or_empty m 1 @ group_or_empty m 2) = group_or_empty m 1"
    "group_or_empty m 1 \<noteq> []"
proof -
  obtain k where a: "group_or_empty m 1 \<noteq> []" "\<forall>c \<in> set (group_or_empty m 1). is_digit c"
    "group_or_empty m 2 = [] \<or> \<not> is_digit (hd (group_or_empty m 2))"
    using docker_match_shape[OF assms] by blast
  show "first_integer_run (group_or_empty m 1 @ group_or_empty m 2) = group_or_empty m 1"
    by (rule first_integer_run_digits[OF a])
  show "group_or_empty m 1 \<noteq> []" by (rule a(1))
qed

lemma first_run_single:
  assumes "rx = rx_node_version \<or> rx = rx_node_env \<or> rx = rx_nodejs" "js_match rx content = Some m"
  shows "first_integer_run (group_or_empty m 1) = group_or_empty m 1" "group_or_empty m 1 \<noteq> []"
proof -
  obtain s' where ps: "rx s' = Some (groups m, rightContext m)"
    using js_match_SomeD[OF assms(2)] by blast
  have "\<exists>ds. groups m = [Some ds] \<and> ds \<noteq> [] \<and> (\<forall>c \<in> set ds. is_digit c)"
    using assms(1) ps rx_node_version_shape[of s'] rx_node_env_shape[of s'] rx_nodejs_shape[of s']
    by auto
  then obtain ds where g: "groups m = [Some ds]" and ds: "ds \<noteq> []" "\<forall>c \<in> set ds. is_digit c"
    by blast
  have g1: "group_or_empty m 1 = ds" using g by (rule group1_single)
  have "first_integer_run (ds @ []) = ds" by (rule first_integer_run_digits[OF ds]) simp
  then show "first_integer_run (group_or_empty m 1) = group_or_empty m 1" using g1 by simp
  show "group_or_empty m 1 \<noteq> []" using g1 ds by simp
qed

text \<open>Where a record comes from.\<close>

lemma checkNvmrc_Some:
  assumes "checkNvmrc w projectRoot = Inr (Some v)"
  shows "\<exists>raw m. readFileSync w (path_join projectRoot ''.nvmrc'') = Inr raw \<and>
           match_here rx_nvm (trim raw) = Some m \<and>
           v = \<lparr>VersionInfo.file = path_join projectRoot ''.nvmrc'', VersionInfo.relativePath = ''.nvmrc'',
                currentVersion = group_or_empty m 1, fullVersion = trim raw,
                majorVersion = parseInt (group_or_empty m 1), fileType = ''nvmrc''\<rparr>"
  using assms unfolding checkNvmrc_def bindE_def Let_def
  by (auto split: if_splits sum.splits option.splits)

lemma checkNodeVersion_Some:
  assumes "checkNodeVersion w projectRoot = Inr (Some v)"
  shows "\<exists>raw m. readFileSync w (path_join projectRoot ''.node-version'') = Inr raw \<and>
           match_here rx_nvm (trim raw) = Some m \<and>
           v = \<lparr>VersionInfo.file = path_join projectRoot ''.node-version'',
                VersionInfo.relativePath = ''.node-version'',
                currentVersion = group_or_empty m 1, fullVersion = trim raw,
                majorVersion = parseInt (group_or_empty m 1), fileType = ''node-version''\<rparr>"
  using assms unfolding checkNodeVersion_def bindE_def Let_def
  by (auto split: if_splits sum.splits option.splits)

lemma checkPackageJson_Some:
  assumes "checkPackageJson P w projectRoot = Inr (Some v)"
  shows "\<exists>raw content s. readFileSync w (path_join projectRoot ''package.json'') = Inr raw \<and>
           json_parse P raw = Some content \<and> engines_node content = Some (JString s) \<and> s \<noteq> [] \<and>
           v = \<lparr>VersionInfo.file = path_join projectRoot ''package.json'',
                VersionInfo.relativePath = ''package.json'',
                currentVersion = toString (extractMajorVersion s), fullVersion = s,
                majorVersion = extractMajorVersion s, fileType = ''package.json''\<rparr>"
  using assms unfolding checkPackageJson_def Let_def
  by (auto split: if_splits sum.splits option.splits json.splits)

lemma checkDockerfile_Some:
  assumes "checkDockerfile w projectRoot = Inr (Some v)"
  shows "\<exists>content m. readFileSync w (path_join projectRoot ''Dockerfile'') = Inr content \<and>
           js_match rx_from content = Some m \<and>
           v = \<lparr>VersionInfo.file = path_join projectRoot ''Dockerfile'', VersionInfo.relativePath = ''Dockerfile'',
                currentVersion = group_or_empty m 1,
                fullVersion = group_or_empty m 1 @ group_or_empty m 2,
                majorVersion = parseInt (group_or_empty m 1), fileType = ''dockerfile''\<rparr>"
  using assms unfolding checkDockerfile_def bindE_def Let_def
  by (auto split: if_splits sum.splits option.splits)

lemma checkDockerCompose_Some:
  assumes "checkDockerCompose w projectRoot = Inr (Some v)"
  shows "\<exists>content m. readFileSync w (path_join projectRoot ''docker-compose.yml'') = Inr content \<and>
           js_match rx_image content = Some m \<and>
           v = \<lparr>VersionInfo.file = path_join projectRoot ''docker-compose.yml'',
                VersionInfo.relativePath = ''docker-compose.yml'',
                currentVersion = group_or_empty m 1,
                fullVersion = group_or_empty m 1 @ group_or_empty m 2,
                majorVersion = parseInt (group_or_empty m 1), fileType = ''docker-compose''\<rparr>"
  using assms unfolding checkDockerCompose_def bindE_def Let_def
  by (auto split: if_splits sum.splits option.splits)

lemma checkToolVersions_Some:
  assumes "checkToolVersions w projectRoot = Inr (Some v)"
  shows "\<exists>content m. readFileSync w (path_join projectRoot ''.tool-versions'') = Inr content \<and>
           js_match rx_nodejs content = Some m \<and>
           v = \<lparr>VersionInfo.file = path_join projectRoot ''.tool-versions'',
                VersionInfo.relativePath = ''.tool-versions'',
                currentVersion = group_or_empty m 1, fullVersion = group_or_empty m 1,
                majorVersion = parseInt (group_or_empty m 1), fileType = ''tool-versions''\<rparr>"
  using assms unfolding checkToolVersions_def bindE_def Let_def
  by (auto split: if_splits sum.splits option.splits)

lemma workflowLoop_member:
  assumes "v \<in> set (workflowLoop w dir files acc)"
  shows "v \<in> set acc \<or>
         (\<exists>f content m. f \<in> set files \<and> readFileSync w (path_join dir f) = Inr content \<and>
            (js_match rx_node_version content = Some m \<or>
             js_match rx_node_version content = None \<and> js_match rx_node_env content = Some m) \<and>
            v = workflowInfo (path_join dir f) f m)"
  using assms
proof (induction files arbitrary: acc)
  case Nil
  then show ?case by simp
next
  case (Cons f files)
  show ?case
  proof (cases "readFileSync w (path_join dir f)")
    case (Inl e)
    then show ?thesis using Cons.prems by (simp add: Let_def)
  next
    case (Inr content)
    show ?thesis
    proof (cases "js_match rx_node_version content")
      case (Some m)
      then have "v \<in> set (workflowLoop w dir files (acc @ [workflowInfo (path_join dir f) f m]))"
        using Cons.prems Inr by (simp add: Let_def)
      from Cons.IH[OF this] show ?thesis using Inr Some by auto
    next
      case None
      show ?thesis
      proof (cases "js_match rx_node_env content")
        case (Some m)
        then have "v \<in> set (workflowLoop w dir files (acc @ [workflowInfo (path_join dir f) f m]))"
          using Cons.prems Inr None by (simp add: Let_def)
        from Cons.IH[OF this] show ?thesis using Inr None Some by auto
      next
        case n2: None
        then have "v \<in> set (workflowLoop w dir files acc)"
          using Cons.prems Inr None by (simp add: Let_def)
        from Cons.IH[OF this] show ?thesis by auto
      qed
    qed
  qed
qed

lemma checkGitHubWorkflows_member:
  assumes "v \<in> set (checkGitHubWorkflows w projectRoot)"
  shows "\<exists>f content m. readFileSync w (path_join (path_join (path_join projectRoot ''.github'') ''workflows'') f) = Inr content \<and>
            (endsWith f ''.yml'' \<or> endsWith f ''.yaml'') \<and>
            (js_match rx_node_version content = Some m \<or>
             js_match rx_node_version content = None \<and> js_match rx_node_env content = Some m) \<and>
            v = workflowInfo (path_join (path_join (path_join projectRoot ''.github'') ''workflows'') f) f m"
proof -
  let ?dir = "path_join (path_join projectRoot ''.github'') ''workflows''"
  obtain names where "v \<in> set (workflowLoop w ?dir
                  (filter (\<lambda>f. endsWith f ''.yml'' \<or> endsWith f ''.yaml'') names) [])"
    using assms unfolding checkGitHubWorkflows_def Let_def
    by (auto split: if_splits sum.splits)
  from workflowLoop_member[OF this] show ?thesis by auto
qed

lemma set_map_filter_id: "set (List.map_filter id xs) = {x. Some x \<in> set xs}"
  by (induction xs) (auto simp: map_filter_simps split: option.splits)

lemma scanVersions_Inr:
  assumes "scanVersions P w projectRoot = Inr vs"
  shows "\<exists>c1 c2 c3 c4 c5 c6. checkNvmrc w projectRoot = Inr c1 \<and> checkPackageJson P w projectRoot = Inr c2 \<and>
           checkDockerfile w projectRoot = Inr c3 \<and> checkDockerCompose w projectRoot = Inr c4 \<and>
           checkNodeVersion w projectRoot = Inr c5 \<and> checkToolVersions w projectRoot = Inr c6 \<and>
           vs = List.map_filter id [c1, c2, c3, c4, c5, c6] @ checkGitHubWorkflows w projectRoot"
  using assms unfolding scanVersions_def bindE_def
  by (auto split: sum.splits)

lemma scanVersions_member:
  assumes "scanVersions P w projectRoot = Inr vs" "v \<in> set vs"
  shows "checkNvmrc w projectRoot = Inr (Some v) \<or> checkPackageJson P w projectRoot = Inr (Some v) \<or>
         checkDockerfile w projectRoot = Inr (Some v) \<or> checkDockerCompose w projectRoot = Inr (Some v) \<or>
         checkNodeVersion w projectRoot = Inr (Some v) \<or> checkToolVersions w projectRoot = Inr (Some v) \<or>
         v \<in> set (checkGitHubWorkflows w projectRoot)"
proof -
  obtain c1 c2 c3 c4 c5 c6 where c: "checkNvmrc w projectRoot = Inr c1" "checkPackageJson P w projectRoot = Inr c2"
    "checkDockerfile w projectRoot = Inr c3" "checkDockerCompose w projectRoot = Inr c4"
    "checkNodeVersion w projectRoot = Inr c5" "checkToolVersions w projectRoot = Inr c6"
    and vs: "vs = List.map_filter id [c1, c2, c3, c4, c5, c6] @ checkGitHubWorkflows w projectRoot"
    using scanVersions_Inr[OF assms(1)] by blast
  have "v \<in> set (List.map_filter id [c1, c2, c3, c4, c5, c6]) \<or> v \<in> set (checkGitHubWorkflows w projectRoot)"
    using assms(2) vs by simp
  then show ?thesis
  proof
    assume "v \<in> set (List.map_filter id [c1, c2, c3, c4, c5, c6])"
    then have "Some v \<in> set [c1, c2, c3, c4, c5, c6]"
      unfolding set_map_filter_id by simp
    then show ?thesis using c by auto
  next
    assume "v \<in> set (checkGitHubWorkflows w projectRoot)"
    then show ?thesis by simp
  qed
qed

section \<open>The major of a record\<close>

text \<open>
  C3. In every record of a scan the major is the number read from the first integer run
  of \<open>fullVersion\<close>; a record whose \<open>fullVersion\<close> holds no digit is a record of
  \<open>package.json\<close>, and its major is 0.
\<close>

theorem major_is_first_integer_run:
  assumes "scanVersions P w projectRoot = Inr vs" and "v \<in> set vs"
  shows "majorVersion v = parseInt (first_integer_run (fullVersion v)) \<and>
         (first_integer_run (fullVersion v) = [] \<longrightarrow> fileType v = ''package.json'' \<and> majorVersion v = 0)"
proof -
  consider (a) "checkNvmrc w projectRoot = Inr (Some v)"
    | (b) "checkPackageJson P w projectRoot = Inr (Some v)"
    | (c) "checkDockerfile w projectRoot = Inr (Some v)"
    | (d) "checkDockerCompose w projectRoot = Inr (Some v)"
    | (e) "checkNodeVersion w projectRoot = Inr (Some v)"
    | (f) "checkToolVersions w projectRoot = Inr (Some v)"
    | (g) "v \<in> set (checkGitHubWorkflows w projectRoot)"
    using scanVersions_member[OF assms] by blast
  then show ?thesis
  proof cases
    case a
    then obtain raw m where "match_here rx_nvm (trim raw) = Some m"
      "fullVersion v = trim raw" "majorVersion v = parseInt (group_or_empty m 1)"
      using checkNvmrc_Some by fastforce
    then show ?thesis using first_run_nvm[of "trim raw" m] by simp
  next
    case b
    then obtain s where "fullVersion v = s" "majorVersion v = extractMajorVersion s"
      "fileType v = ''package.json''"
      using checkPackageJson_Some by fastforce
    then show ?thesis by (simp add: extractMajorVersion_first_run parseInt_def)
  next
    case c
    then obtain content m where "js_match rx_from content = Some m"
      "fullVersion v = group_or_empty m 1 @ group_or_empty m 2"
      "majorVersion v = parseInt (group_or_empty m 1)"
      using checkDockerfile_Some by fastforce
    then show ?thesis using first_run_docker[of rx_from content m] by simp
  next
    case d
    then obtain content m where "js_match rx_image content = Some m"
      "fullVersion v = group_or_empty m 1 @ group_or_empty m 2"
      "majorVersion v = parseInt (group_or_empty m 1)"
      using checkDockerCompose_Some by fastforce
    then show ?thesis using first_run_docker[of rx_image content m] by simp
  next
    case e
    then obtain raw m where "match_here rx_nvm (trim raw) = Some m"
      "fullVersion v = trim raw" "majorVersion v = parseInt (group_or_empty m 1)"
      using checkNodeVersion_Some by fastforce
    then show ?thesis using first_run_nvm[of "trim raw" m] by simp
  next
    case f
    then obtain content m where "js_match rx_nodejs content = Some m"
      "fullVersion v = group_or_empty m 1" "majorVersion v = parseInt (group_or_empty m 1)"
      using checkToolVersions_Some by fastforce
    then show ?thesis using first_run_single[of rx_nodejs content m] by simp
  next
    case g
    then obtain f content m where
      "js_match rx_node_version content = Some m \<or> js_match rx_node_env content = Some m"
      "v = workflowInfo (path_join (path_join (path_join projectRoot ''.github'') ''workflows'') f) f m"
      using checkGitHubWorkflows_member by blast
    then show ?thesis
      using first_run_single[of rx_node_version content m] first_run_single[of rx_node_env content m]
      by (auto simp: workflowInfo_def)
  qed
qed

section \<open>Extraction does not fail\<close>

lemma plain_check:
  assumes "\<not> existsSync w p \<or> (\<exists>raw. readFileSync w p = Inr raw)"
  shows "\<exists>c. (if \<not> existsSync w p then Inr None
              else bindE (readFileSync w p)
                     (\<lambda>raw. case g raw of None \<Rightarrow> Inr None | Some m \<Rightarrow> Inr (Some (h raw m)))) = Inr c \<and>
             (\<not> existsSync w p \<longrightarrow> c = None) \<and>
             (\<forall>raw. readFileSync w p = Inr raw \<and> g raw = None \<longrightarrow> c = None)"
proof (cases "existsSync w p")
  case False
  then show ?thesis by simp
next
  case True
  then obtain raw where raw: "readFileSync w p = Inr raw" using assms by blast
  show ?thesis using True raw unfolding bindE_def by (cases "g raw") auto
qed

lemma checkPackageJson_returns: "\<exists>c. checkPackageJson P w projectRoot = Inr c"
proof (cases "checkPackageJson P w projectRoot")
  case (Inl e)
  then show ?thesis unfolding checkPackageJson_def Let_def
    by (auto split: if_splits sum.splits option.splits json.splits)
next
  case (Inr c)
  then show ?thesis by simp
qed

text \<open>
  The three cases in which a format has no record. Let each of the five files that are
  read as plain text be missing or be a file whose content can be read (a file that
  exists and cannot be read is another matter: the read of these five checks is outside
  any \<open>try\<close>). Then each of the six single-file checks returns, and the scan
  returns the records of the checks that made one, in the order of the checks, followed
  by the workflow records. A check whose file is missing makes no record; a check whose
  pattern does not match the content makes no record; \<open>package.json\<close> makes no record
  when \<open>JSON.parse\<close> rejects it or when it has no \<open>engines.node\<close> (whether it can be
  read or not, its check returns). Without the workflow directory there is no workflow
  record, and every workflow record is of a listed file that matches one of the two
  patterns.
\<close>

theorem extraction_never_fatal:
  assumes "\<forall>name \<in> set [''.nvmrc'', ''Dockerfile'', ''docker-compose.yml'', ''.node-version'',
                          ''.tool-versions''].
             \<not> existsSync w (path_join projectRoot name) \<or>
             (\<exists>raw. readFileSync w (path_join projectRoot name) = Inr raw)"
  shows "\<exists>c1 c2 c3 c4 c5 c6.
           checkNvmrc w projectRoot = Inr c1 \<and> checkPackageJson P w projectRoot = Inr c2 \<and>
           checkDockerfile w projectRoot = Inr c3 \<and> checkDockerCompose w projectRoot = Inr c4 \<and>
           checkNodeVersion w projectRoot = Inr c5 \<and> checkToolVersions w projectRoot = Inr c6 \<and>
           scanVersions P w projectRoot =
             Inr (List.map_filter id [c1, c2, c3, c4, c5, c6] @ checkGitHubWorkflows w projectRoot) \<and>
           (\<not> existsSync w (path_join projectRoot ''.nvmrc'') \<longrightarrow> c1 = None) \<and>
           (\<forall>raw. readFileSync w (path_join projectRoot ''.nvmrc'') = Inr raw \<and>
                  match_here rx_nvm (trim raw) = None \<longrightarrow> c1 = None) \<and>
           (\<not> existsSync w (path_join projectRoot ''package.json'') \<longrightarrow> c2 = None) \<and>
           (\<forall>raw. readFileSync w (path_join projectRoot ''package.json'') = Inr raw \<and>
                  json_parse P raw = None \<longrightarrow> c2 = None) \<and>
           (\<forall>raw content. readFileSync w (path_join projectRoot ''package.json'') = Inr raw \<and>
                  json_parse P raw = Some content \<and> engines_node content = None \<longrightarrow> c2 = None) \<and>
           (\<not> existsSync w (path_join projectRoot ''Dockerfile'') \<longrightarrow> c3 = None) \<and>
           (\<forall>content. readFileSync w (path_join projectRoot ''Dockerfile'') = Inr content \<and>
                  js_match rx_from content = None \<longrightarrow> c3 = None) \<and>
           (\<not> existsSync w (path_join projectRoot ''docker-compose.yml'') \<longrightarrow> c4 = None) \<and>
           (\<forall>content. readFileSync w (path_join projectRoot ''docker-compose.yml'') = Inr content \<and>
                  js_match rx_image content = None \<longrightarrow> c4 = None) \<and>
           (\<not> existsSync w (path_join projectRoot ''.node-version'') \<longrightarrow> c5 = None) \<and>
           (\<forall>raw. readFileSync w (path_join projectRoot ''.node-version'') = Inr raw \<and>
                  match_here rx_nvm (trim raw) = None \<longrightarrow> c5 = None) \<and>
           (\<not> existsSync w (path_join projectRoot ''.tool-versions'') \<longrightarrow> c6 = None) \<and>
           (\<forall>content. readFileSync w (path_join projectRoot ''.tool-versions'') = Inr content \<and>
                  js_match rx_nodejs content = None \<longrightarrow> c6 = None) \<and>
           (\<not> existsSync w (path_join (path_join projectRoot ''.github'') ''workflows'') \<longrightarrow>
              checkGitHubWorkflows w projectRoot = []) \<and>
           (\<forall>v \<in> set (checkGitHubWorkflows w projectRoot).
              \<exists>f content. VersionInfo.file v =
                  path_join (path_join (path_join projectRoot ''.github'') ''workflows'') f \<and>
                readFileSync w (VersionInfo.file v) = Inr content \<and>
                (js_match rx_node_version content \<noteq> None \<or> js_match rx_node_env content \<noteq> None))"
proof -
  have r1: "\<not> existsSync w (path_join projectRoot ''.nvmrc'') \<or>
            (\<exists>raw. readFileSync w (path_join projectRoot ''.nvmrc'') = Inr raw)"
    and r3: "\<not> existsSync w (path_join projectRoot ''Dockerfile'') \<or>
            (\<exists>raw. readFileSync w (path_join projectRoot ''Dockerfile'') = Inr raw)"
    and r4: "\<not> existsSync w (path_join projectRoot ''docker-compose.yml'') \<or>
            (\<exists>raw. readFileSync w (path_join projectRoot ''docker-compose.yml'') = Inr raw)"
    and r5: "\<not> existsSync w (path_join projectRoot ''.node-version'') \<or>
            (\<exists>raw. readFileSync w (path_join projectRoot ''.node-version'') = Inr raw)"
    and r6: "\<not> existsSync w (path_join projectRoot ''.tool-versions'') \<or>
            (\<exists>raw. readFileSync w (path_join projectRoot ''.tool-versions'') = Inr raw)"
    using assms by simp_all
  have "\<exists>c1. checkNvmrc w projectRoot = Inr c1 \<and>
             (\<not> existsSync w (path_join projectRoot ''.nvmrc'') \<longrightarrow> c1 = None) \<and>
             (\<forall>raw. readFileSync w (path_join projectRoot ''.nvmrc'') = Inr raw \<and>
                  match_here rx_nvm (trim raw) = None \<longrightarrow> c1 = None)"
    unfolding checkNvmrc_def Let_def by (rule plain_check[OF r1])
  then obtain c1 where c1: "checkNvmrc w projectRoot = Inr c1"
    "\<not> existsSync w (path_join projectRoot ''.nvmrc'') \<longrightarrow> c1 = None"
    "\<forall>raw. readFileSync w (path_join projectRoot ''.nvmrc'') = Inr raw \<and>
                  match_here rx_nvm (trim raw) = None \<longrightarrow> c1 = None"
    by blast
  obtain c2 where c2a: "checkPackageJson P w projectRoot = Inr c2"
    using checkPackageJson_returns by blast
  have c2b: "\<not> existsSync w (path_join projectRoot ''package.json'') \<longrightarrow> c2 = None"
    using c2a unfolding checkPackageJson_def Let_def by auto
  have c2c: "\<forall>raw. readFileSync w (path_join projectRoot ''package.json'') = Inr raw \<and>
                  json_parse P raw = None \<longrightarrow> c2 = None"
    using c2a unfolding checkPackageJson_def Let_def by (auto split: if_splits)
  have c2d: "\<forall>raw content. readFileSync w (path_join projectRoot ''package.json'') = Inr raw \<and>
                  json_parse P raw = Some content \<and> engines_node content = None \<longrightarrow> c2 = None"
    using c2a unfolding checkPackageJson_def Let_def by (auto split: if_splits)
  note c2 = c2a c2b c2c c2d
  have "\<exists>c3. checkDockerfile w projectRoot = Inr c3 \<and>
             (\<not> existsSync w (path_join projectRoot ''Dockerfile'') \<longrightarrow> c3 = None) \<and>
             (\<forall>content. readFileSync w (path_join projectRoot ''Dockerfile'') = Inr content \<and>
                  js_match rx_from content = None \<longrightarrow> c3 = None)"
    unfolding checkDockerfile_def Let_def by (rule plain_check[OF r3])
  then obtain c3 where c3: "checkDockerfile w projectRoot = Inr c3"
    "\<not> existsSync w (path_join projectRoot ''Dockerfile'') \<longrightarrow> c3 = None"
    "\<forall>content. readFileSync w (path_join projectRoot ''Dockerfile'') = Inr content \<and>
                  js_match rx_from content = None \<longrightarrow> c3 = None"
    by blast
  have "\<exists>c4. checkDockerCompose w projectRoot = Inr c4 \<and>
             (\<not> existsSync w (path_join projectRoot ''docker-compose.yml'') \<longrightarrow> c4 = None) \<and>
             (\<forall>content. readFileSync w (path_join projectRoot ''docker-compose.yml'') = Inr content \<and>
                  js_match rx_image content = None \<longrightarrow> c4 = None)"
    unfolding checkDockerCompose_def Let_def by (rule plain_check[OF r4])
  then obtain c4 where c4: "checkDockerCompose w projectRoot = Inr c4"
    "\<not> existsSync w (path_join projectRoot ''docker-compose.yml'') \<longrightarrow> c4 = None"
    "\<forall>content. readFileSync w (path_join projectRoot ''docker-compose.yml'') = Inr content \<and>
                  js_match rx_image content = None \<longrightarrow> c4 = None"
    by blast
  have "\<exists>c5. checkNodeVersion w projectRoot = Inr c5 \<and>
             (\<not> existsSync w (path_join projectRoot ''.node-version'') \<longrightarrow> c5 = None) \<and>
             (\<forall>raw. readFileSync w (path_join projectRoot ''.node-version'') = Inr raw \<and>
                  match_here rx_nvm (trim raw) = None \<longrightarrow> c5 = None)"
    unfolding checkNodeVersion_def Let_def by (rule plain_check[OF r5])
  then obtain c5 where c5: "checkNodeVersion w projectRoot = Inr c5"
    "\<not> existsSync w (path_join projectRoot ''.node-version'') \<longrightarrow> c5 = None"
    "\<forall>raw. readFileSync w (path_join projectRoot ''.node-version'') = Inr raw \<and>
                  match_here rx_nvm (trim raw) = None \<longrightarrow> c5 = None"
    by blast
  have "\<exists>c6. checkToolVersions w projectRoot = Inr c6 \<and>
             (\<not> existsSync w (path_join projectRoot ''.tool-versions'') \<longrightarrow> c6 = None) \<and>
             (\<forall>content. readFileSync w (path_join projectRoot ''.tool-versions'') = Inr content \<and>
                  js_match rx_nodejs content = None \<longrightarrow> c6 = None)"
    unfolding checkToolVersions_def Let_def by (rule plain_check[OF r6])
  then obtain c6 where c6: "checkToolVersions w projectRoot = Inr c6"
    "\<not> existsSync w (path_join projectRoot ''.tool-versions'') \<longrightarrow> c6 = None"
    "\<forall>content. readFileSync w (path_join projectRoot ''.tool-versions'') = Inr content \<and>
                  js_match rx_nodejs content = None \<longrightarrow> c6 = None"
    by blast
  have scan: "scanVersions P w projectRoot =
             Inr (List.map_filter id [c1, c2, c3, c4, c5, c6] @ checkGitHubWorkflows w projectRoot)"
    unfolding scanVersions_def c1(1) c2(1) c3(1) c4(1) c5(1) c6(1) bindE_def by simp
  have w0: "\<not> existsSync w (path_join (path_join projectRoot ''.github'') ''workflows'') \<longrightarrow>
              checkGitHubWorkflows w projectRoot = []"
    unfolding checkGitHubWorkflows_def Let_def by simp
  have w1: "\<forall>v \<in> set (checkGitHubWorkflows w projectRoot).
              \<exists>f content. VersionInfo.file v =
                  path_join (path_join (path_join projectRoot ''.github'') ''workflows'') f \<and>
                readFileSync w (VersionInfo.file v) = Inr content \<and>
                (js_match rx_node_version content \<noteq> None \<or> js_match rx_node_env content \<noteq> None)"
  proof
    fix v assume "v \<in> set (checkGitHubWorkflows w projectRoot)"
    from checkGitHubWorkflows_member[OF this] show "\<exists>f content. VersionInfo.file v =
                  path_join (path_join (path_join projectRoot ''.github'') ''workflows'') f \<and>
                readFileSync w (VersionInfo.file v) = Inr content \<and>
                (js_match rx_node_version content \<noteq> None \<or> js_match rx_node_env content \<noteq> None)"
      by (auto simp: workflowInfo_def)
  qed
  show ?thesis
    apply (rule exI[of _ c1], rule exI[of _ c2], rule exI[of _ c3])
    apply (rule exI[of _ c4], rule exI[of _ c5], rule exI[of _ c6])
    apply (intro conjI)
    apply (fact c1 c2 c3 c4 c5 c6 scan w0 w1)+
    done
qed

section \<open>A workflow file that cannot be read\<close>

lemma workflowLoop_abandons:
  assumes "readFileSync w (path_join dir f) = Inl e"
  shows "workflowLoop w dir (before @ f # rest) acc = workflowLoop w dir before acc"
proof (induction before arbitrary: acc)
  case Nil
  then show ?case using assms by (simp add: Let_def)
next
  case (Cons g gs)
  then show ?case by (simp add: Let_def split: sum.splits option.splits)
qed

lemma workflowLoop_acc: "set acc \<subseteq> set (workflowLoop w dir files acc)"
proof (induction files arbitrary: acc)
  case Nil
  then show ?case by simp
next
  case (Cons g gs)
  show ?case
  proof (cases "readFileSync w (path_join dir g)")
    case (Inl e)
    then show ?thesis by (simp add: Let_def)
  next
    case (Inr content)
    then show ?thesis using Cons.IH[of acc] Cons.IH[of "acc @ [workflowInfo (path_join dir g) g m]" for m]
      by (auto simp: Let_def split: option.splits)
  qed
qed

lemma workflowLoop_keeps:
  assumes "\<forall>g \<in> set files. \<exists>c. readFileSync w (path_join dir g) = Inr c"
    and "g \<in> set files" and "readFileSync w (path_join dir g) = Inr content"
    and "js_match rx_node_version content = Some m \<or>
         js_match rx_node_version content = None \<and> js_match rx_node_env content = Some m"
  shows "workflowInfo (path_join dir g) g m \<in> set (workflowLoop w dir files acc)"
  using assms(1,2)
proof (induction files arbitrary: acc)
  case Nil
  then show ?case by simp
next
  case (Cons h hs)
  obtain c where c: "readFileSync w (path_join dir h) = Inr c" using Cons.prems(1) by auto
  have rest: "\<forall>g \<in> set hs. \<exists>c. readFileSync w (path_join dir g) = Inr c" using Cons.prems(1) by simp
  show ?case
  proof (cases "g = h")
    case True
    then have cc: "c = content" using c assms(3) by simp
    have "workflowLoop w dir (h # hs) acc =
            workflowLoop w dir hs (acc @ [workflowInfo (path_join dir g) g m])"
      using assms(4) c cc True by (auto simp: Let_def)
    then show ?thesis using workflowLoop_acc[of "acc @ [workflowInfo (path_join dir g) g m]" w dir hs]
      by auto
  next
    case False
    then have "g \<in> set hs" using Cons.prems(2) by simp
    then have "\<And>acc. workflowInfo (path_join dir g) g m \<in> set (workflowLoop w dir hs acc)"
      using Cons.IH[OF rest] by blast
    then show ?thesis using c by (simp add: Let_def split: option.splits)
  qed
qed

text \<open>
  C10. Let the six single-file checks return, and let \<open>f\<close> be the first workflow file,
  in the order of the listing filtered to \<open>.yml\<close> and \<open>.yaml\<close>, whose read throws. Then
  the scan returns: its workflow records are those the loop makes of the files before
  \<open>f\<close>. Each of those files that matches a pattern has its record, and there is no
  record of \<open>f\<close> or of a file after it, whatever those files hold.
\<close>

theorem workflow_read_failure_abandons_loop:
  assumes "checkNvmrc w projectRoot = Inr c1" and "checkPackageJson P w projectRoot = Inr c2"
    and "checkDockerfile w projectRoot = Inr c3" and "checkDockerCompose w projectRoot = Inr c4"
    and "checkNodeVersion w projectRoot = Inr c5" and "checkToolVersions w projectRoot = Inr c6"
    and "dir = path_join (path_join projectRoot ''.github'') ''workflows''"
    and "readdirSync w dir = Inr names"
    and "filter (\<lambda>f. endsWith f ''.yml'' \<or> endsWith f ''.yaml'') names = before @ f # rest"
    and "\<forall>g \<in> set before. \<exists>c. readFileSync w (path_join dir g) = Inr c"
    and "readFileSync w (path_join dir f) = Inl e"
  shows "\<exists>ws. checkGitHubWorkflows w projectRoot = ws \<and>
           scanVersions P w projectRoot = Inr (List.map_filter id [c1, c2, c3, c4, c5, c6] @ ws) \<and>
           ws = workflowLoop w dir before [] \<and>
           (\<forall>v \<in> set ws. \<exists>g \<in> set before. VersionInfo.file v = path_join dir g) \<and>
           (\<forall>g \<in> set before. \<forall>content m.
              readFileSync w (path_join dir g) = Inr content \<and>
              (js_match rx_node_version content = Some m \<or>
               js_match rx_node_version content = None \<and> js_match rx_node_env content = Some m) \<longrightarrow>
              workflowInfo (path_join dir g) g m \<in> set ws)"
proof -
  have ex: "existsSync w dir"
    using assms(8) unfolding readdirSync_def existsSync_def by (auto split: option.splits)
  have ws: "checkGitHubWorkflows w projectRoot = workflowLoop w dir before []"
    using ex assms(8,9) workflowLoop_abandons[OF assms(11)]
    unfolding checkGitHubWorkflows_def Let_def assms(7)[symmetric] by simp
  have scan: "scanVersions P w projectRoot =
      Inr (List.map_filter id [c1, c2, c3, c4, c5, c6] @ workflowLoop w dir before [])"
    unfolding scanVersions_def assms(1-6) ws bindE_def by simp
  have only: "\<forall>v \<in> set (workflowLoop w dir before []). \<exists>g \<in> set before. VersionInfo.file v = path_join dir g"
  proof
    fix v assume "v \<in> set (workflowLoop w dir before [])"
    from workflowLoop_member[OF this] show "\<exists>g \<in> set before. VersionInfo.file v = path_join dir g"
      by (auto simp: workflowInfo_def)
  qed
  have kept: "\<forall>g \<in> set before. \<forall>content m.
              readFileSync w (path_join dir g) = Inr content \<and>
              (js_match rx_node_version content = Some m \<or>
               js_match rx_node_version content = None \<and> js_match rx_node_env content = Some m) \<longrightarrow>
              workflowInfo (path_join dir g) g m \<in> set (workflowLoop w dir before [])"
    using workflowLoop_keeps[OF assms(10)] by blast
  show ?thesis using ws scan only kept by simp
qed

section \<open>How an updater ends\<close>

lemma outcome_failed: "outcome w opts p (Inr (result_failed p rel old new e), w)"
  unfolding outcome_def by blast

lemma outcome_throw: "readFileSync w p = Inl e \<Longrightarrow> outcome w opts p (Inl e, w)"
  unfolding outcome_def by blast

lemma outcome_dry: "dryRun opts \<Longrightarrow> outcome w opts p (Inr (result_ok p rel old new None), w)"
  unfolding outcome_def by blast

lemma outcome_written:
  "\<not> dryRun opts \<Longrightarrow> backupAndWrite w opts p c = (Inr b, w') \<Longrightarrow>
   outcome w opts p (Inr (result_ok p rel old new (Some b)), w')"
  unfolding outcome_def by blast

lemma outcome_write_failed:
  "\<not> dryRun opts \<Longrightarrow> backupAndWrite w opts p c = (Inl e, w') \<Longrightarrow>
   outcome w opts p (Inr (result_failed p rel old new e), w')"
  unfolding outcome_def by blast

lemma finish_outcome:
  "outcome w opts p (case finish w opts p rel old new c of (r, w') \<Rightarrow> (Inr r, w'))"
proof (cases "dryRun opts")
  case True
  then show ?thesis unfolding finish_def by (simp add: outcome_dry)
next
  case False
  obtain y w' where bw: "backupAndWrite w opts p c = (y, w')" by (cases "backupAndWrite w opts p c")
  show ?thesis
  proof (cases y)
    case (Inl e)
    then show ?thesis using False bw unfolding finish_def by (simp add: outcome_write_failed)
  next
    case (Inr b)
    then show ?thesis using False bw unfolding finish_def by (simp add: outcome_written)
  qed
qed

lemma updateNvmrc_outcome: "outcome w opts p (updateNvmrc P w p target opts)"
  unfolding updateNvmrc_def
  by (cases "readFileSync w p") (simp_all add: outcome_throw finish_outcome)

lemma updateNodeVersionFile_outcome: "outcome w opts p (updateNodeVersionFile P w p target opts)"
  unfolding updateNodeVersionFile_def
  by (cases "readFileSync w p") (simp_all add: outcome_throw finish_outcome)

lemma updateDockerfile_outcome: "outcome w opts p (updateDockerfile P w p target opts)"
proof (cases "readFileSync w p")
  case (Inl e)
  then show ?thesis unfolding updateDockerfile_def by (simp add: outcome_throw)
next
  case (Inr content)
  then show ?thesis unfolding updateDockerfile_def Let_def
    by (cases "js_match rx_from content") (simp_all add: outcome_failed finish_outcome)
qed

lemma updateDockerCompose_outcome: "outcome w opts p (updateDockerCompose P w p target opts)"
proof (cases "readFileSync w p")
  case (Inl e)
  then show ?thesis unfolding updateDockerCompose_def by (simp add: outcome_throw)
next
  case (Inr content)
  then show ?thesis unfolding updateDockerCompose_def Let_def
    by (cases "js_match rx_image content") (simp_all add: outcome_failed finish_outcome)
qed

lemma updateToolVersions_outcome: "outcome w opts p (updateToolVersions P w p target opts)"
proof (cases "readFileSync w p")
  case (Inl e)
  then show ?thesis unfolding updateToolVersions_def by (simp add: outcome_throw)
next
  case (Inr content)
  then show ?thesis unfolding updateToolVersions_def Let_def
    by (cases "js_match rx_nodejs content") (simp_all add: outcome_failed finish_outcome)
qed

lemma updateGitHubWorkflow_outcome: "outcome w opts p (updateGitHubWorkflow P w p target opts)"
proof (cases "readFileSync w p")
  case (Inl e)
  then show ?thesis unfolding updateGitHubWorkflow_def by (simp add: outcome_throw)
next
  case (Inr content)
  then show ?thesis unfolding updateGitHubWorkflow_def Let_def
    by (simp add: outcome_failed finish_outcome split: prod.splits)
qed

lemma updatePackageJson_outcome: "outcome w opts p (updatePackageJson P w p target opts)"
proof (cases "readFileSync w p")
  case (Inl e)
  then show ?thesis unfolding updatePackageJson_def Let_def by (simp add: outcome_failed)
next
  case (Inr raw)
  show ?thesis
  proof (cases "json_parse P raw")
    case None
    then show ?thesis using Inr unfolding updatePackageJson_def Let_def by (simp add: outcome_failed)
  next
    case (Some content)
    show ?thesis
    proof (cases "dryRun opts")
      case True
      then show ?thesis using Inr Some unfolding updatePackageJson_def Let_def
        by (simp add: outcome_dry)
    next
      case False
      show ?thesis
      proof (cases "set_engines_node content (''>='' @ toString target @ ''.0.0'')")
        case None
        then show ?thesis using Inr Some False unfolding updatePackageJson_def Let_def
          by (simp add: outcome_failed)
      next
        case (Some content')
        obtain y w' where bw: "backupAndWrite w opts p (json_stringify P content' @ [CHR 0x0A]) = (y, w')"
          by (cases "backupAndWrite w opts p (json_stringify P content' @ [CHR 0x0A])")
        show ?thesis
          using Inr \<open>json_parse P raw = Some content\<close> False Some bw
          unfolding updatePackageJson_def Let_def
          by (cases y) (simp_all add: outcome_written outcome_write_failed)
      qed
    qed
  qed
qed

lemma updateVersionFile_outcome:
  "outcome w opts (VersionInfo.file v) (updateVersionFile P w v target opts)"
  unfolding updateVersionFile_def
  by (simp add: updateNvmrc_outcome updatePackageJson_outcome updateDockerfile_outcome
      updateDockerCompose_outcome updateGitHubWorkflow_outcome updateNodeVersionFile_outcome
      updateToolVersions_outcome outcome_failed)

lemma writeFileSync_frame:
  assumes "writeFileSync w p c = (y, w')"
  shows "rdeny w' = rdeny w" "wdeny w' = wdeny w" "clock w' = clock w" "ticks w' = ticks w"
    "nodes w q = Some (File c0) \<Longrightarrow> \<exists>c1. nodes w' q = Some (File c1)"
  using assms unfolding writeFileSync_def
  by (auto split: if_splits option.splits node.splits)

lemma backupFile_frame:
  assumes "backupFile w p = (y, w')"
  shows "rdeny w' = rdeny w" "wdeny w' = wdeny w"
    "nodes w q = Some (File c0) \<Longrightarrow> \<exists>c1. nodes w' q = Some (File c1)"
proof -
  let ?w1 = "w\<lparr>ticks := Suc (ticks w)\<rparr>"
  have "w' = ?w1 \<or> (\<exists>bp old z. writeFileSync ?w1 bp old = (z, w'))"
    using assms unfolding backupFile_unfold by (auto split: sum.splits prod.splits)
  then show "rdeny w' = rdeny w" "wdeny w' = wdeny w"
    "nodes w q = Some (File c0) \<Longrightarrow> \<exists>c1. nodes w' q = Some (File c1)"
    using writeFileSync_frame(1,2,5)[of ?w1] by fastforce+
qed

lemma backupAndWrite_frame:
  assumes "backupAndWrite w opts p c = (y, w')"
  shows "rdeny w' = rdeny w" "wdeny w' = wdeny w"
    "nodes w q = Some (File c0) \<Longrightarrow> \<exists>c1. nodes w' q = Some (File c1)"
proof -
  have "(\<exists>z. writeFileSync w p c = (z, w')) \<or> (\<exists>z. backupFile w p = (z, w')) \<or>
        (\<exists>z w1 z'. backupFile w p = (z, w1) \<and> writeFileSync w1 p c = (z', w'))"
    using assms unfolding backupAndWrite_def by (auto split: if_splits sum.splits prod.splits)
  then consider (a) z where "writeFileSync w p c = (z, w')" | (b) z where "backupFile w p = (z, w')"
    | (c) z w1 z' where "backupFile w p = (z, w1)" "writeFileSync w1 p c = (z', w')" by blast
  then have "rdeny w' = rdeny w \<and> wdeny w' = wdeny w \<and>
             (nodes w q = Some (File c0) \<longrightarrow> (\<exists>c1. nodes w' q = Some (File c1)))"
  proof cases
    case a
    then show ?thesis using writeFileSync_frame(1,2,5)[OF a] by blast
  next
    case b
    then show ?thesis using backupFile_frame[OF b] by blast
  next
    case c
    have "nodes w q = Some (File c0) \<longrightarrow> (\<exists>c1. nodes w' q = Some (File c1))"
      using backupFile_frame(3)[OF c(1)] writeFileSync_frame(5)[OF c(2)] by blast
    then show ?thesis using backupFile_frame(1,2)[OF c(1)] writeFileSync_frame(1,2)[OF c(2)] by simp
  qed
  then show "rdeny w' = rdeny w" "wdeny w' = wdeny w"
    "nodes w q = Some (File c0) \<Longrightarrow> \<exists>c1. nodes w' q = Some (File c1)" by blast+
qed

lemma backupAndWrite_denied:
  assumes "wdeny w p"
  shows "\<exists>e w'. backupAndWrite w opts p c = (Inl e, w')"
proof (cases "backupAndWrite w opts p c")
  case (Pair y w')
  show ?thesis
  proof (cases y)
    case (Inl e)
    then show ?thesis using Pair by simp
  next
    case (Inr b)
    have "wdeny w' p" using backupAndWrite_frame(2)[OF Pair] assms by simp
    moreover have "\<exists>w1. writeFileSync w1 p c = (Inr (), w')"
      using backupAndWrite_ok(5,6)[of w opts p c b w'] Pair Inr by (cases "backup opts") auto
    ultimately show ?thesis using writeFileSync_ok(3,6) by fastforce
  qed
qed

text \<open>What every outcome of an updater has.\<close>

lemma outcome_frame:
  assumes "outcome w opts p (y, w')"
  shows "rdeny w' = rdeny w" "wdeny w' = wdeny w"
    "readFileSync w q = Inr c0 \<Longrightarrow> \<exists>c1. readFileSync w' q = Inr c1"
proof -
  have "w' = w \<or> (\<exists>c z. backupAndWrite w opts p c = (z, w'))"
    using assms unfolding outcome_def by auto
  then have f: "rdeny w' = rdeny w \<and> wdeny w' = wdeny w \<and>
      (\<forall>q c0. nodes w q = Some (File c0) \<longrightarrow> (\<exists>c1. nodes w' q = Some (File c1)))"
  proof
    assume "w' = w"
    then show ?thesis by simp
  next
    assume "\<exists>c z. backupAndWrite w opts p c = (z, w')"
    then obtain c z where bw: "backupAndWrite w opts p c = (z, w')" by blast
    show ?thesis using backupAndWrite_frame[OF bw] by blast
  qed
  show "rdeny w' = rdeny w" "wdeny w' = wdeny w" using f by simp_all
  show "readFileSync w q = Inr c0 \<Longrightarrow> \<exists>c1. readFileSync w' q = Inr c1"
    using f unfolding readFileSync_Inr by auto
qed

lemma outcome_returns:
  assumes "outcome w opts p (y, w')" "readFileSync w p = Inr c0"
  shows "\<exists>r. y = Inr r \<and> UpdateResult.file r = p \<and> (success r \<or> error r \<noteq> None)"
  using assms unfolding outcome_def result_ok_def result_failed_def by auto

lemma outcome_denied:
  assumes "outcome w opts p (Inr r, w')" "\<not> dryRun opts" "wdeny w p"
  shows "\<not> success r \<and> error r \<noteq> None"
proof -
  have "(\<exists>rel old new e. r = result_failed p rel old new e) \<or>
        (\<exists>c b. backupAndWrite w opts p c = (Inr b, w'))"
    using assms(1,2) unfolding outcome_def by auto
  then show ?thesis
  proof
    assume "\<exists>rel old new e. r = result_failed p rel old new e"
    then show ?thesis unfolding result_failed_def by auto
  next
    assume "\<exists>c b. backupAndWrite w opts p c = (Inr b, w')"
    then obtain c b where "backupAndWrite w opts p c = (Inr b, w')" by blast
    then show ?thesis using backupAndWrite_denied[OF assms(3), of opts c] by simp
  qed
qed


section \<open>Failures stay with their file\<close>

lemma scanned_file_readable:
  assumes "scanVersions P w projectRoot = Inr vs" "v \<in> set vs"
  shows "\<exists>c. readFileSync w (VersionInfo.file v) = Inr c"
proof -
  consider (a) "checkNvmrc w projectRoot = Inr (Some v)"
    | (b) "checkPackageJson P w projectRoot = Inr (Some v)"
    | (c) "checkDockerfile w projectRoot = Inr (Some v)"
    | (d) "checkDockerCompose w projectRoot = Inr (Some v)"
    | (e) "checkNodeVersion w projectRoot = Inr (Some v)"
    | (f) "checkToolVersions w projectRoot = Inr (Some v)"
    | (g) "v \<in> set (checkGitHubWorkflows w projectRoot)"
    using scanVersions_member[OF assms] by blast
  then show ?thesis
  proof cases
    case a then show ?thesis using checkNvmrc_Some by fastforce
  next
    case b then show ?thesis using checkPackageJson_Some by fastforce
  next
    case c then show ?thesis using checkDockerfile_Some by fastforce
  next
    case d then show ?thesis using checkDockerCompose_Some by fastforce
  next
    case e then show ?thesis using checkNodeVersion_Some by fastforce
  next
    case f then show ?thesis using checkToolVersions_Some by fastforce
  next
    case g
    from checkGitHubWorkflows_member[OF this] show ?thesis by (auto simp: workflowInfo_def)
  qed
qed

lemma updateLoop_isolates:
  assumes "\<forall>v \<in> set vs. \<exists>c. readFileSync w (VersionInfo.file v) = Inr c"
  shows "\<exists>rs w'. updateLoop P w vs target opts acc = (Inr (acc @ rs), w') \<and>
           each_processed P target opts w vs rs w' \<and>
           list_all2 (\<lambda>v r. UpdateResult.file r = VersionInfo.file v \<and>
                        (success r \<or> error r \<noteq> None) \<and>
                        (\<not> dryRun opts \<and> majorVersion v \<noteq> target \<and> wdeny w (VersionInfo.file v)
                           \<longrightarrow> \<not> success r \<and> error r \<noteq> None)) vs rs"
  using assms
proof (induction vs arbitrary: w acc)
  case Nil
  then show ?case by simp
next
  case (Cons v vs)
  let ?Q = "\<lambda>w v r. UpdateResult.file r = VersionInfo.file v \<and>
                        (success r \<or> error r \<noteq> None) \<and>
                        (\<not> dryRun opts \<and> majorVersion v \<noteq> target \<and> wdeny w (VersionInfo.file v)
                           \<longrightarrow> \<not> success r \<and> error r \<noteq> None)"
  have rd: "\<forall>v \<in> set vs. \<exists>c. readFileSync w (VersionInfo.file v) = Inr c" using Cons.prems by simp
  show ?case
  proof (cases "majorVersion v = target")
    case True
    let ?r = "result_ok (VersionInfo.file v) (VersionInfo.relativePath v)
                 (JString (fullVersion v)) (toString target) None"
    obtain rs w' where ih: "updateLoop P w vs target opts (acc @ [?r]) = (Inr ((acc @ [?r]) @ rs), w')"
      "each_processed P target opts w vs rs w'" "list_all2 (?Q w) vs rs"
      using Cons.IH[OF rd] by blast
    have "updateLoop P w (v # vs) target opts acc = (Inr (acc @ ?r # rs), w')"
      using True ih(1) by simp
    moreover have "each_processed P target opts w (v # vs) (?r # rs) w'"
      using True ih(2) by simp
    moreover have "list_all2 (?Q w) (v # vs) (?r # rs)"
      using True ih(3) by (simp add: result_ok_def)
    ultimately show ?thesis by blast
  next
    case False
    obtain y w1 where u: "updateVersionFile P w v target opts = (y, w1)"
      by (cases "updateVersionFile P w v target opts")
    have oc: "outcome w opts (VersionInfo.file v) (y, w1)"
      using updateVersionFile_outcome[of w opts v P target] u by simp
    obtain c where c: "readFileSync w (VersionInfo.file v) = Inr c" using Cons.prems by auto
    obtain r where r: "y = Inr r" "UpdateResult.file r = VersionInfo.file v"
      "success r \<or> error r \<noteq> None"
      using outcome_returns[OF oc c] by blast
    have den: "\<not> dryRun opts \<and> wdeny w (VersionInfo.file v) \<longrightarrow> \<not> success r \<and> error r \<noteq> None"
      using outcome_denied[of w opts "VersionInfo.file v" r w1] oc r(1) by blast
    have rd1: "\<forall>v \<in> set vs. \<exists>c. readFileSync w1 (VersionInfo.file v) = Inr c"
      using rd outcome_frame(3)[OF oc] by blast
    have wd: "wdeny w1 = wdeny w" by (rule outcome_frame(2)[OF oc])
    obtain rs w' where ih: "updateLoop P w1 vs target opts (acc @ [r]) = (Inr ((acc @ [r]) @ rs), w')"
      "each_processed P target opts w1 vs rs w'" "list_all2 (?Q w1) vs rs"
      using Cons.IH[OF rd1] by blast
    have "updateLoop P w (v # vs) target opts acc = (Inr (acc @ r # rs), w')"
      using False u r(1) ih(1) by simp
    moreover have "each_processed P target opts w (v # vs) (r # rs) w'"
      using False u r(1) ih(2) by simp
    moreover have "list_all2 (?Q w) (v # vs) (r # rs)"
      using r(2,3) den ih(3) unfolding wd by simp
    ultimately show ?thesis by blast
  qed
qed

text \<open>
  Failures of the write and of the backup, in a world that nothing but the update changes
  after the scan (every scanned file can then still be read when its turn comes). When
  the scan returns its records, the update returns one result for each of
  them, in their order and for their file: every record is
  processed in its turn, each result is a success or carries an error, and a record that
  is not at the target and whose file cannot be written gets, outside a dry run, a result
  that is not a success and carries the error.
\<close>

theorem failure_is_isolated:
  assumes "scanVersions P w projectRoot = Inr vs"
  shows "\<exists>rs w'. updateAllVersions P w projectRoot target opts = (Inr rs, w') \<and>
           each_processed P target opts w vs rs w' \<and>
           list_all2 (\<lambda>v r. UpdateResult.file r = VersionInfo.file v \<and>
                        (success r \<or> error r \<noteq> None) \<and>
                        (\<not> dryRun opts \<and> majorVersion v \<noteq> target \<and> wdeny w (VersionInfo.file v)
                           \<longrightarrow> \<not> success r \<and> error r \<noteq> None)) vs rs"
proof -
  have "\<forall>v \<in> set vs. \<exists>c. readFileSync w (VersionInfo.file v) = Inr c"
    using scanned_file_readable[OF assms] by blast
  from updateLoop_isolates[OF this, of P target opts "[]"] show ?thesis
    unfolding updateAllVersions_def assms by simp
qed

section \<open>The dry run\<close>

lemma finish_dry:
  "dryRun opts \<Longrightarrow> finish w opts p rel old new c = (result_ok p rel old new None, w)"
  unfolding finish_def by simp

lemma updateGitHubWorkflow_dry:
  assumes "readFileSync w p = Inr content" "dryRun opts"
    and "js_match rx_node_version content = Some m \<or>
         js_match rx_node_version content = None \<and> js_match rx_node_env content = Some m"
  shows "updateGitHubWorkflow P w p target opts =
           (Inr (result_ok p (relative P p) (JString (group_or_empty m 1)) (toString target) None), w)"
  using assms(3)
proof
  assume nv: "js_match rx_node_version content = Some m"
  have ne: "group_or_empty m 1 \<noteq> []" using first_run_single(2)[of rx_node_version content m] nv by simp
  show ?thesis
    unfolding updateGitHubWorkflow_def Let_def using assms(1,2) nv ne
    by (simp add: finish_dry split: option.splits)
next
  assume env: "js_match rx_node_version content = None \<and> js_match rx_node_env content = Some m"
  show ?thesis
    unfolding updateGitHubWorkflow_def Let_def using assms(1,2) env
    by (simp add: finish_dry)
qed

lemma updateVersionFile_dry:
  assumes "scanVersions P w projectRoot = Inr vs" "v \<in> set vs" "dryRun opts"
  shows "updateVersionFile P w v target opts =
           (Inr (result_ok (VersionInfo.file v) (relative P (VersionInfo.file v))
                   (JString (fullVersion v)) (afterValue v target) None), w)"
proof -
  consider (a) "checkNvmrc w projectRoot = Inr (Some v)"
    | (b) "checkPackageJson P w projectRoot = Inr (Some v)"
    | (c) "checkDockerfile w projectRoot = Inr (Some v)"
    | (d) "checkDockerCompose w projectRoot = Inr (Some v)"
    | (e) "checkNodeVersion w projectRoot = Inr (Some v)"
    | (f) "checkToolVersions w projectRoot = Inr (Some v)"
    | (g) "v \<in> set (checkGitHubWorkflows w projectRoot)"
    using scanVersions_member[OF assms(1,2)] by blast
  then show ?thesis
  proof cases
    case a
    then obtain raw m where "readFileSync w (path_join projectRoot ''.nvmrc'') = Inr raw"
      "v = \<lparr>VersionInfo.file = path_join projectRoot ''.nvmrc'', VersionInfo.relativePath = ''.nvmrc'',
                currentVersion = group_or_empty m 1, fullVersion = trim raw,
                majorVersion = parseInt (group_or_empty m 1), fileType = ''nvmrc''\<rparr>"
      using checkNvmrc_Some by blast
    then show ?thesis using assms(3)
      unfolding updateVersionFile_def updateNvmrc_def afterValue_def by (simp add: finish_dry)
  next
    case b
    then obtain raw content s where "readFileSync w (path_join projectRoot ''package.json'') = Inr raw"
      "json_parse P raw = Some content" "engines_node content = Some (JString s)" "s \<noteq> []"
      "v = \<lparr>VersionInfo.file = path_join projectRoot ''package.json'',
                VersionInfo.relativePath = ''package.json'',
                currentVersion = toString (extractMajorVersion s), fullVersion = s,
                majorVersion = extractMajorVersion s, fileType = ''package.json''\<rparr>"
      using checkPackageJson_Some by blast
    then show ?thesis using assms(3)
      unfolding updateVersionFile_def updatePackageJson_def afterValue_def Let_def by simp
  next
    case c
    then obtain content m where "readFileSync w (path_join projectRoot ''Dockerfile'') = Inr content"
      "js_match rx_from content = Some m"
      "v = \<lparr>VersionInfo.file = path_join projectRoot ''Dockerfile'', VersionInfo.relativePath = ''Dockerfile'',
                currentVersion = group_or_empty m 1,
                fullVersion = group_or_empty m 1 @ group_or_empty m 2,
                majorVersion = parseInt (group_or_empty m 1), fileType = ''dockerfile''\<rparr>"
      using checkDockerfile_Some by blast
    then show ?thesis using assms(3)
      unfolding updateVersionFile_def updateDockerfile_def afterValue_def Let_def
      by (simp add: finish_dry)
  next
    case d
    then obtain content m where "readFileSync w (path_join projectRoot ''docker-compose.yml'') = Inr content"
      "js_match rx_image content = Some m"
      "v = \<lparr>VersionInfo.file = path_join projectRoot ''docker-compose.yml'',
                VersionInfo.relativePath = ''docker-compose.yml'',
                currentVersion = group_or_empty m 1,
                fullVersion = group_or_empty m 1 @ group_or_empty m 2,
                majorVersion = parseInt (group_or_empty m 1), fileType = ''docker-compose''\<rparr>"
      using checkDockerCompose_Some by blast
    then show ?thesis using assms(3)
      unfolding updateVersionFile_def updateDockerCompose_def afterValue_def Let_def
      by (simp add: finish_dry)
  next
    case e
    then obtain raw m where "readFileSync w (path_join projectRoot ''.node-version'') = Inr raw"
      "v = \<lparr>VersionInfo.file = path_join projectRoot ''.node-version'',
                VersionInfo.relativePath = ''.node-version'',
                currentVersion = group_or_empty m 1, fullVersion = trim raw,
                majorVersion = parseInt (group_or_empty m 1), fileType = ''node-version''\<rparr>"
      using checkNodeVersion_Some by blast
    then show ?thesis using assms(3)
      unfolding updateVersionFile_def updateNodeVersionFile_def afterValue_def
      by (simp add: finish_dry)
  next
    case f
    then obtain content m where "readFileSync w (path_join projectRoot ''.tool-versions'') = Inr content"
      "js_match rx_nodejs content = Some m"
      "v = \<lparr>VersionInfo.file = path_join projectRoot ''.tool-versions'',
                VersionInfo.relativePath = ''.tool-versions'',
                currentVersion = group_or_empty m 1, fullVersion = group_or_empty m 1,
                majorVersion = parseInt (group_or_empty m 1), fileType = ''tool-versions''\<rparr>"
      using checkToolVersions_Some by blast
    then show ?thesis using assms(3)
      unfolding updateVersionFile_def updateToolVersions_def afterValue_def Let_def
      by (simp add: finish_dry)
  next
    case g
    let ?dir = "path_join (path_join projectRoot ''.github'') ''workflows''"
    obtain f content m where rd: "readFileSync w (path_join ?dir f) = Inr content"
      and mm: "js_match rx_node_version content = Some m \<or>
             js_match rx_node_version content = None \<and> js_match rx_node_env content = Some m"
      and v: "v = workflowInfo (path_join ?dir f) f m"
      using checkGitHubWorkflows_member[OF g] by blast
    show ?thesis
      using updateGitHubWorkflow_dry[OF rd assms(3) mm, of P target]
      unfolding updateVersionFile_def afterValue_def v workflowInfo_def by simp
  qed
qed

lemma updateLoop_dry:
  assumes "scanVersions P w projectRoot = Inr vs0" "set vs \<subseteq> set vs0" "dryRun opts"
  shows "\<exists>rs. updateLoop P w vs target opts acc = (Inr (acc @ rs), w) \<and>
           list_all2 (\<lambda>v r. UpdateResult.file r = VersionInfo.file v \<and> success r \<and>
                        backedUp r = None \<and> oldVersion r = JString (fullVersion v) \<and>
                        (majorVersion v \<noteq> target \<longrightarrow> newVersion r = afterValue v target)) vs rs"
  using assms(2)
proof (induction vs arbitrary: acc)
  case Nil
  then show ?case by simp
next
  case (Cons v vs)
  have sub: "set vs \<subseteq> set vs0" and v: "v \<in> set vs0" using Cons.prems by auto
  let ?r = "if majorVersion v = target
            then result_ok (VersionInfo.file v) (VersionInfo.relativePath v)
                   (JString (fullVersion v)) (toString target) None
            else result_ok (VersionInfo.file v) (relative P (VersionInfo.file v))
                   (JString (fullVersion v)) (afterValue v target) None"
  obtain rs where ih: "updateLoop P w vs target opts (acc @ [?r]) = (Inr ((acc @ [?r]) @ rs), w)"
    "list_all2 (\<lambda>v r. UpdateResult.file r = VersionInfo.file v \<and> success r \<and>
                        backedUp r = None \<and> oldVersion r = JString (fullVersion v) \<and>
                        (majorVersion v \<noteq> target \<longrightarrow> newVersion r = afterValue v target)) vs rs"
    using Cons.IH[OF sub] by blast
  have "updateLoop P w (v # vs) target opts acc = (Inr (acc @ ?r # rs), w)"
  proof (cases "majorVersion v = target")
    case True
    then show ?thesis using ih(1) by simp
  next
    case False
    then show ?thesis using ih(1) updateVersionFile_dry[OF assms(1) v assms(3), of target] by simp
  qed
  moreover have "UpdateResult.file ?r = VersionInfo.file v \<and> success ?r \<and>
                        backedUp ?r = None \<and> oldVersion ?r = JString (fullVersion v) \<and>
                        (majorVersion v \<noteq> target \<longrightarrow> newVersion ?r = afterValue v target)"
    by (simp add: result_ok_def)
  ultimately show ?case using ih(2) by blast
qed

text \<open>
  C4. A dry run leaves the world as it was: no file is written, no backup made, the
  clock not read. When the scan returns its records there is one result for each, in
  their order, every one a success without \<open>backedUp\<close>, with the version text of the
  record as old value and, for a record that is not at the target, the value the update
  would leave as new value.
\<close>

theorem dry_run_writes_nothing:
  assumes "dryRun opts"
  shows "snd (updateAllVersions P w projectRoot target opts) = w \<and>
         (\<forall>vs. scanVersions P w projectRoot = Inr vs \<longrightarrow>
            (\<exists>rs. fst (updateAllVersions P w projectRoot target opts) = Inr rs \<and>
               list_all2 (\<lambda>v r. UpdateResult.file r = VersionInfo.file v \<and> success r \<and>
                            backedUp r = None \<and> oldVersion r = JString (fullVersion v) \<and>
                            (majorVersion v \<noteq> target \<longrightarrow> newVersion r = afterValue v target))
                 vs rs))"
proof (cases "scanVersions P w projectRoot")
  case (Inl e)
  then show ?thesis unfolding updateAllVersions_def by simp
next
  case (Inr vs)
  obtain rs where "updateLoop P w vs target opts [] = (Inr ([] @ rs), w)"
    "list_all2 (\<lambda>v r. UpdateResult.file r = VersionInfo.file v \<and> success r \<and>
                            backedUp r = None \<and> oldVersion r = JString (fullVersion v) \<and>
                            (majorVersion v \<noteq> target \<longrightarrow> newVersion r = afterValue v target))
                 vs rs"
    using updateLoop_dry[OF Inr subset_refl assms, of target "[]"] by blast
  then show ?thesis unfolding updateAllVersions_def Inr by simp
qed

section \<open>Both keys of a workflow file\<close>

lemma lit_append_long:
  "length ps \<le> length x \<Longrightarrow> lit ci ps (x @ y) = map_option (\<lambda>r. r @ y) (lit ci ps x)"
  by (induction ci ps x rule: lit.induct) auto

lemma lit_append_short:
  "length x < length ps \<Longrightarrow>
   lit ci ps (x @ y) =
     (case lit ci (take (length x) ps) x of None \<Rightarrow> None | Some r \<Rightarrow> lit ci (drop (length x) ps) y)"
proof (induction ci ps x rule: lit.induct)
  case (1 ci s)
  then show ?case by simp
next
  case (2 ci p ps)
  then show ?case by simp
next
  case (3 ci p ps c cs)
  then show ?case by (cases ci) (auto split: option.splits)
qed

lemma lower_literals:
  "lower (CHR ''n'') = CHR ''n''" "lower (CHR ''o'') = CHR ''o''" "lower (CHR ''d'') = CHR ''d''"
  "lower (CHR ''e'') = CHR ''e''" "lower (CHR ''-'') = CHR ''-''" "lower (CHR ''v'') = CHR ''v''"
  "lower (CHR ''r'') = CHR ''r''" "lower (CHR ''s'') = CHR ''s''" "lower (CHR ''i'') = CHR ''i''"
  "lower (CHR '':'') = CHR '':''" "lower (CHR ''N'') = CHR ''n''" "lower (CHR ''O'') = CHR ''o''"
  "lower (CHR ''D'') = CHR ''d''" "lower (CHR ''E'') = CHR ''e''" "lower (CHR ''_'') = CHR ''_''"
  "lower (CHR ''V'') = CHR ''v''" "lower (CHR ''R'') = CHR ''r''" "lower (CHR ''S'') = CHR ''s''"
  "lower (CHR ''I'') = CHR ''i''" "lower (CHR '' '') = CHR '' ''" "lower (CHR 0x27) = CHR 0x27"
  by (simp_all add: lower_def)

lemma wf_key_tail:
  assumes "wf_key K" "lower a = CHR ''n''" "lower b = CHR ''o''" "0 < k" "k < 13"
  shows "lit True (drop k K) (a # b # t) = None"
proof -
  have k: "k = 1 \<or> k = 2 \<or> k = 3 \<or> k = 4 \<or> k = 5 \<or> k = 6 \<or> k = 7 \<or> k = 8 \<or> k = 9 \<or>
           k = 10 \<or> k = 11 \<or> k = 12"
    using assms(4,5) by arith
  show ?thesis
  proof (cases "K = ''node-version:''")
    case True
    show ?thesis using k unfolding True
      by (elim disjE) (simp_all add: assms(2,3) lower_literals)
  next
    case False
    then have K: "K = ''NODE_VERSION:''" using assms(1) unfolding wf_key_def by simp
    show ?thesis using k unfolding K
      by (elim disjE) (simp_all add: assms(2,3) lower_literals)
  qed
qed

lemma rx_node_version_key: "rx_node_version = rx_key ''node-version:''"
  unfolding rx_node_version_def rx_key_def by (rule ext) simp

lemma rx_node_env_key: "rx_node_env = rx_key ''NODE_VERSION:''"
  unfolding rx_node_env_def rx_key_def by (rule ext) simp

lemma wf_key_length: "wf_key K \<Longrightarrow> length K = 13"
  unfolding wf_key_def by auto

lemma dropWhile_append_stop:
  "y = [] \<or> \<not> Q (hd y) \<Longrightarrow> dropWhile Q (x @ y) = dropWhile Q x @ y"
  by (induction x) (auto simp: dropWhile_eq_self_iff)

lemma takeWhile_append_stop:
  "y = [] \<or> \<not> Q (hd y) \<Longrightarrow> takeWhile Q (x @ y) = takeWhile Q x"
  by (induction x) (auto simp: takeWhile_eq_Nil_iff)

lemma opt_quote_append_stop:
  "y = [] \<or> \<not> is_quote (hd y) \<Longrightarrow> opt_quote (x @ y) = opt_quote x @ y"
  by (cases x; cases y) auto

lemma digits1_append_stop:
  assumes "y = [] \<or> \<not> is_digit (hd y)"
  shows "digits1 (x @ y) = map_option (\<lambda>(ds, r). (ds, r @ y)) (digits1 x)"
  unfolding digits1_def
  by (simp add: takeWhile_append_stop[where Q=is_digit, OF assms]
          dropWhile_append_stop[where Q=is_digit, OF assms])

lemma rx_quoted_int_append_stop:
  assumes "stops y"
  shows "rx_quoted_int (x @ y) = map_option (\<lambda>(gs, r). (gs, r @ y)) (rx_quoted_int x)"
proof -
  have sp: "y = [] \<or> \<not> is_space (hd y)" and qu: "y = [] \<or> \<not> is_quote (hd y)"
    and di: "y = [] \<or> \<not> is_digit (hd y)"
    using assms unfolding stops_def by auto
  show ?thesis
    unfolding rx_quoted_int_def
    by (simp add: dropWhile_append_stop[where Q=is_space, OF sp] opt_quote_append_stop[OF qu]
          digits1_append_stop[OF di] split: option.splits)
qed

lemma rx_key_append_long:
  assumes "length K \<le> length x" "stops y"
  shows "rx_key K (x @ y) = map_option (\<lambda>(gs, r). (gs, r @ y)) (rx_key K x)"
  unfolding rx_key_def
  by (simp add: lit_append_long[OF assms(1)] rx_quoted_int_append_stop[OF assms(2)]
        split: option.splits)

lemma n_stops: "lower a = CHR ''n'' \<Longrightarrow> stops (a # t)"
  unfolding stops_def is_space_def is_quote_def is_digit_def
  by (auto simp: lower_def)

lemma rx_key_append_short:
  assumes "wf_key K" "x \<noteq> []" "length x < length K" "lower a = CHR ''n''" "lower b = CHR ''o''"
  shows "rx_key K (x @ a # b # t) = None"
proof -
  have "0 < length x" "length x < 13" using assms(2,3) wf_key_length[OF assms(1)] by auto
  then have "lit True (drop (length x) K) (a # b # t) = None"
    using wf_key_tail[OF assms(1,4,5)] by blast
  then show ?thesis unfolding rx_key_def
    by (simp add: lit_append_short[OF assms(3)] split: option.splits)
qed

text \<open>
  A match that starts before a text beginning with n and o ends before it, and does not
  depend on it.
\<close>

lemma rx_key_before:
  assumes "wf_key K" "x \<noteq> []" "lower a = CHR ''n''" "lower b = CHR ''o''"
  shows "rx_key K (x @ a # b # t) =
           (if length K \<le> length x then map_option (\<lambda>(gs, r). (gs, r @ a # b # t)) (rx_key K x)
            else None)"
proof (cases "length K \<le> length x")
  case True
  then show ?thesis using rx_key_append_long[OF True n_stops[OF assms(3)]] by simp
next
  case False
  then show ?thesis using rx_key_append_short[OF assms(1,2) _ assms(3,4)] by simp
qed



lemma rx_key_None_first: "wf_key K \<Longrightarrow> lower a \<noteq> CHR ''n'' \<Longrightarrow> rx_key K (a # t) = None"
  unfolding rx_key_def wf_key_def by (auto simp: lower_literals)

lemma rx_key_None_second:
  "wf_key K \<Longrightarrow> lower b \<noteq> CHR ''o'' \<Longrightarrow> rx_key K (a # b # t) = None"
  unfolding rx_key_def wf_key_def by (auto simp: lower_literals)

lemma rx_key_None_empty: "wf_key K \<Longrightarrow> rx_key K [] = None"
  unfolding rx_key_def wf_key_def by auto

lemma digit_not_n: "is_digit c \<Longrightarrow> lower c \<noteq> CHR ''n''"
  unfolding is_digit_def lower_def by auto

lemma rx_key_inside_line:
  assumes "wf_key K" "wf_key K'" "\<forall>c \<in> set T. is_digit c" "0 < j" "j < length (wf_line K' T)"
  shows "rx_key K (drop j (wf_line K' T) @ z) = None"
proof (cases "j < 15")
  case True
  then have j: "j = 1 \<or> j = 2 \<or> j = 3 \<or> j = 4 \<or> j = 5 \<or> j = 6 \<or> j = 7 \<or> j = 8 \<or> j = 9 \<or>
           j = 10 \<or> j = 11 \<or> j = 12 \<or> j = 13 \<or> j = 14"
    using assms(4) by arith
  show ?thesis
  proof (cases "K' = ''node-version:''")
    case True
    show ?thesis using j unfolding True wf_line_def
      by (elim disjE)
         (simp_all add: rx_key_None_first[OF assms(1)] rx_key_None_second[OF assms(1)] lower_literals)
  next
    case False
    then have K: "K' = ''NODE_VERSION:''" using assms(2) unfolding wf_key_def by simp
    show ?thesis using j unfolding K wf_line_def
      by (elim disjE)
         (simp_all add: rx_key_None_first[OF assms(1)] rx_key_None_second[OF assms(1)] lower_literals)
  qed
next
  case False
  let ?B = "T @ [CHR 0x27]"
  define A where "A = K' @ '' '' @ [CHR 0x27]"
  have lenA: "length A = 15" using wf_key_length[OF assms(2)] by (simp add: A_def)
  have split: "wf_line K' T = A @ ?B" by (simp add: A_def wf_line_def)
  have d: "drop j (wf_line K' T) = drop (j - 15) ?B"
    unfolding split using False lenA by simp
  have "j - 15 < length ?B"
    using assms(5) False wf_key_length[OF assms(2)] unfolding wf_line_def by simp
  then have ne: "drop (j - 15) ?B \<noteq> []" by simp
  then obtain a v where av: "drop (j - 15) ?B = a # v" by (cases "drop (j - 15) ?B") auto
  then have "a \<in> set (drop (j - 15) ?B)" by simp
  then have "a \<in> set ?B" by (rule in_set_dropD)
  then have v: "drop j (wf_line K' T) = a # v" "a \<in> set (T @ [CHR 0x27])" using d av by simp_all
  have "lower a \<noteq> CHR ''n''"
    using v(2) assms(3) digit_not_n by (auto simp: lower_literals)
  then show ?thesis unfolding v(1) using rx_key_None_first[OF assms(1)] by simp
qed

lemma rx_key_other_line:
  assumes "wf_key K" "wf_key K'" "K \<noteq> K'"
  shows "rx_key K (wf_line K' T @ z) = None"
  using assms unfolding wf_key_def rx_key_def wf_line_def by (auto simp: lower_literals)

lemma wf_line_start:
  assumes "wf_key K"
  shows "\<exists>a b t. wf_line K T @ z = a # b # t \<and> lower a = CHR ''n'' \<and> lower b = CHR ''o''"
  using assms unfolding wf_key_def wf_line_def by (auto simp: lower_literals)

lemma rx_key_start:
  assumes "wf_key K" "rx_key K s = Some (gs, r)"
  shows "\<exists>a b t. s = a # b # t \<and> lower a = CHR ''n'' \<and> lower b = CHR ''o''"
proof (cases s)
  case Nil
  then show ?thesis using assms rx_key_None_empty by simp
next
  case (Cons a s1)
  note s = this
  show ?thesis
  proof (cases s1)
    case Nil
    then show ?thesis using assms s unfolding rx_key_def wf_key_def
      by (auto split: if_splits option.splits)
  next
    case (Cons b t)
    have "lower a = CHR ''n''" using rx_key_None_first[OF assms(1), of a s1] assms(2) s by auto
    moreover have "lower b = CHR ''o''"
      using rx_key_None_second[OF assms(1), of b a t] assms(2) s Cons by auto
    ultimately show ?thesis using s Cons by simp
  qed
qed

lemma opt_quote_length: "length (opt_quote s) \<le> length s"
  by (cases s) auto

lemma rx_quoted_int_length: "rx_quoted_int s = Some (gs, r) \<Longrightarrow> length r \<le> length s"
proof -
  assume a: "rx_quoted_int s = Some (gs, r)"
  let ?s1 = "opt_quote (dropWhile is_space s)"
  have l1: "length ?s1 \<le> length s"
    using opt_quote_length[of "dropWhile is_space s"] length_dropWhile_le[of is_space s] by simp
  have "r = opt_quote (dropWhile is_digit ?s1)"
    using a unfolding rx_quoted_int_def digits1_def by (auto split: if_splits)
  then have "length r \<le> length ?s1"
    using opt_quote_length[of "dropWhile is_digit ?s1"] length_dropWhile_le[of is_digit ?s1] by simp
  then show ?thesis using l1 by simp
qed

lemma rx_key_shorter:
  assumes "wf_key K" "rx_key K s = Some (gs, r)"
  shows "length r < length s"
proof -
  obtain r1 where l: "lit True K s = Some r1" and q: "rx_quoted_int r1 = Some (gs, r)"
    using assms(2) unfolding rx_key_def by (auto split: option.splits)
  obtain u where "s = u @ r1" "length u = length K" using lit_shape[OF l] by blast
  then have "length s = 13 + length r1" using wf_key_length[OF assms(1)] by simp
  then show ?thesis using rx_quoted_int_length[OF q] by simp
qed







lemma opt_quote_suffix: "\<exists>u. s = u @ opt_quote s"
proof (cases s)
  case Nil
  then show ?thesis by simp
next
  case (Cons c cs)
  show ?thesis
  proof (cases "is_quote c")
    case True
    then have "s = [c] @ opt_quote s" using Cons by simp
    then show ?thesis by blast
  next
    case False
    then have "s = [] @ opt_quote s" using Cons by simp
    then show ?thesis by blast
  qed
qed

lemma rx_quoted_int_suffix:
  assumes "rx_quoted_int s = Some (gs, r)"
  shows "\<exists>u. s = u @ r"
proof -
  let ?s1 = "dropWhile is_space s"
  let ?s2 = "opt_quote ?s1"
  let ?s3 = "dropWhile is_digit ?s2"
  have r: "r = opt_quote ?s3"
    using assms unfolding rx_quoted_int_def digits1_def by (auto split: if_splits)
  have u1: "s = takeWhile is_space s @ ?s1" by simp
  obtain u2 where u2: "?s1 = u2 @ ?s2" using opt_quote_suffix by blast
  have u3: "?s2 = takeWhile is_digit ?s2 @ ?s3" by simp
  obtain u4 where u4: "?s3 = u4 @ r" using opt_quote_suffix[of ?s3] r by auto
  have "s = takeWhile is_space s @ u2 @ ?s2" using u1 u2 by simp
  also have "\<dots> = takeWhile is_space s @ u2 @ takeWhile is_digit ?s2 @ u4 @ r"
    using u3 u4 by simp
  finally have "s = (takeWhile is_space s @ u2 @ takeWhile is_digit ?s2 @ u4) @ r" by simp
  then show ?thesis by blast
qed

lemma rx_key_suffix:
  assumes "rx_key K s = Some (gs, r)"
  shows "\<exists>u. s = u @ r"
proof -
  obtain r1 where l: "lit True K s = Some r1" and q: "rx_quoted_int r1 = Some (gs, r)"
    using assms unfolding rx_key_def by (auto split: option.splits)
  obtain u where u: "s = u @ r1" using lit_shape[OF l] by blast
  obtain u' where "r1 = u' @ r" using rx_quoted_int_suffix[OF q] by blast
  then have "s = (u @ u') @ r" using u by simp
  then show ?thesis by blast
qed

lemma wf_line_plain:
  assumes "wf_key K" "\<forall>c \<in> set T. is_digit c"
  shows "CHR ''$'' \<notin> set (wf_line K T)"
proof -
  have "\<not> is_digit (CHR ''$'')" by (simp add: is_digit_def)
  then have t: "CHR ''$'' \<notin> set T" using assms(2) by blast
  have k: "CHR ''$'' \<notin> set K" using assms(1) unfolding wf_key_def by (elim disjE) simp_all
  show ?thesis unfolding wf_line_def using t k by simp
qed

text \<open>One round of the replacement with the \<open>g\<close> flag.\<close>

lemma replace_all_fuel_Some:
  assumes "js_match p s = Some m" "CHR ''$'' \<notin> set line"
  shows "replace_all_fuel (Suc n) p line s =
           leftContext m @ line @ replace_all_fuel n p line (rightContext m)"
  using assms by (simp add: get_substitution_plain)







lemma js_match_rightContext_shorter:
  assumes "wf_key K" "js_match (rx_key K) s = Some m"
  shows "length (rightContext m) < length s"
proof -
  obtain s' where s: "s = leftContext m @ s'" and ps: "rx_key K s' = Some (groups m, rightContext m)"
    using js_match_SomeD[OF assms(2)] by blast
  have "length (rightContext m) < length s'" by (rule rx_key_shorter[OF assms(1) ps])
  then show ?thesis using s by simp
qed

lemma js_match_rx_key_Nil: "wf_key K \<Longrightarrow> js_match (rx_key K) [] = None"
  by (simp add: match_here_def rx_key_None_empty)

lemma replace_all_fuel_enough:
  assumes "wf_key K"
  shows "length s \<le> n \<Longrightarrow> length s \<le> n' \<Longrightarrow>
         replace_all_fuel n (rx_key K) l s = replace_all_fuel n' (rx_key K) l s"
proof (induction n arbitrary: n' s)
  case 0
  then have s: "s = []" by simp
  show ?case
  proof (cases n')
    case 0
    then show ?thesis by simp
  next
    case (Suc k)
    then show ?thesis using s js_match_rx_key_Nil[OF assms] by simp
  qed
next
  case (Suc n)
  show ?case
  proof (cases n')
    case 0
    then have s: "s = []" using Suc.prems(2) by simp
    then show ?thesis using 0 js_match_rx_key_Nil[OF assms] by simp
  next
    case k: (Suc k)
    show ?thesis
    proof (cases "js_match (rx_key K) s")
      case None
      then show ?thesis using k by simp
    next
      case (Some m)
      have "length (rightContext m) < length s" by (rule js_match_rightContext_shorter[OF assms Some])
      then have "length (rightContext m) \<le> n" "length (rightContext m) \<le> k"
        using Suc.prems k by simp_all
      from Suc.IH[OF this] show ?thesis using Some k by simp
    qed
  qed
qed

lemma js_replace_all_None: "js_match p s = None \<Longrightarrow> js_replace_all p l s = s"
  unfolding js_replace_all_def by (cases "length s") simp_all

lemma js_replace_all_Some:
  assumes "wf_key K" "js_match (rx_key K) s = Some m" "CHR ''$'' \<notin> set l"
  shows "js_replace_all (rx_key K) l s =
           leftContext m @ l @ js_replace_all (rx_key K) l (rightContext m)"
proof -
  have sh: "length (rightContext m) < length s" by (rule js_match_rightContext_shorter[OF assms(1,2)])
  then obtain n where n: "length s = Suc n" by (cases "length s") simp_all
  have "replace_all_fuel n (rx_key K) l (rightContext m) =
          replace_all_fuel (length (rightContext m)) (rx_key K) l (rightContext m)"
    using sh n by (intro replace_all_fuel_enough[OF assms(1)]) simp_all
  then show ?thesis unfolding js_replace_all_def n
    using replace_all_fuel_Some[OF assms(2,3), of n] by simp
qed

lemma js_match_head:
  assumes "p (c # cs) = Some (gs, r)"
  shows "\<exists>m. js_match p (c # cs) = Some m \<and> leftContext m = [] \<and> rightContext m = r"
  using assms by (simp add: match_here_def)

lemma js_replace_all_head:
  assumes "wf_key K" "rx_key K s = Some (gs, r)" "CHR ''$'' \<notin> set l"
  shows "js_replace_all (rx_key K) l s = l @ js_replace_all (rx_key K) l r"
proof -
  obtain c cs where s: "s = c # cs" using assms(1,2) rx_key_None_empty by (cases s) auto
  obtain m where m: "js_match (rx_key K) s = Some m" "leftContext m = []" "rightContext m = r"
    using js_match_head[of "rx_key K" c cs gs r] assms(2) s by auto
  show ?thesis using js_replace_all_Some[OF assms(1) m(1) assms(3)] m(2,3) by simp
qed

lemma js_replace_all_skip:
  assumes "wf_key K" "rx_key K (c # cs) = None" "CHR ''$'' \<notin> set l"
  shows "js_replace_all (rx_key K) l (c # cs) = c # js_replace_all (rx_key K) l cs"
proof (cases "js_match (rx_key K) cs")
  case None
  then have "js_match (rx_key K) (c # cs) = None" using assms(2) by (simp add: match_here_def)
  then show ?thesis using None by (simp add: js_replace_all_None)
next
  case (Some m)
  let ?m = "m\<lparr>leftContext := c # leftContext m\<rparr>"
  have "js_match (rx_key K) (c # cs) = Some ?m" using assms(2) Some by (simp add: match_here_def)
  from js_replace_all_Some[OF assms(1) this assms(3)] js_replace_all_Some[OF assms(1) Some assms(3)]
  show ?thesis by simp
qed

lemma js_replace_all_skip_prefix:
  assumes "wf_key K" "CHR ''$'' \<notin> set l"
  shows "(\<forall>i < length a. rx_key K (drop i a @ b) = None) \<Longrightarrow>
         js_replace_all (rx_key K) l (a @ b) = a @ js_replace_all (rx_key K) l b"
proof (induction a)
  case Nil
  then show ?case by simp
next
  case (Cons c a)
  have h: "rx_key K (c # a @ b) = None" using Cons.prems by (auto dest: spec[of _ 0])
  have "\<forall>i < length a. rx_key K (drop i a @ b) = None"
  proof (intro allI impI)
    fix i assume "i < length a"
    then have "Suc i < length (c # a)" by simp
    then have "rx_key K (drop (Suc i) (c # a) @ b) = None" using Cons.prems by blast
    then show "rx_key K (drop i a @ b) = None" by simp
  qed
  from Cons.IH[OF this] show ?case using js_replace_all_skip[OF assms(1) h assms(2)] by simp
qed

text \<open>
  What the replacement of every match of a key does to a text: nothing, or the text before
  the first match stays and what follows begins with n and o as the match did.
\<close>

lemma js_replace_all_shape:
  assumes "wf_key K" "\<forall>c \<in> set T. is_digit c"
  shows "js_replace_all (rx_key K) (wf_line K T) s = s \<or>
         (\<exists>x a b t a' b' t'. s = x @ a # b # t \<and>
            js_replace_all (rx_key K) (wf_line K T) s = x @ a' # b' # t' \<and>
            lower a = CHR ''n'' \<and> lower b = CHR ''o'' \<and>
            lower a' = CHR ''n'' \<and> lower b' = CHR ''o'')"
proof (cases "js_match (rx_key K) s")
  case None
  then show ?thesis by (simp add: js_replace_all_None)
next
  case (Some m)
  obtain s' where s: "s = leftContext m @ s'" and ps: "rx_key K s' = Some (groups m, rightContext m)"
    using js_match_SomeD[OF Some] by blast
  obtain a b t where s': "s' = a # b # t" "lower a = CHR ''n''" "lower b = CHR ''o''"
    using rx_key_start[OF assms(1) ps] by blast
  let ?z = "js_replace_all (rx_key K) (wf_line K T) (rightContext m)"
  obtain a' b' t' where l: "wf_line K T @ ?z = a' # b' # t'" "lower a' = CHR ''n''" "lower b' = CHR ''o''"
    using wf_line_start[OF assms(1), of T ?z] by blast
  have "js_replace_all (rx_key K) (wf_line K T) s = leftContext m @ wf_line K T @ ?z"
    by (rule js_replace_all_Some[OF assms(1) Some wf_line_plain[OF assms]])
  then have r: "js_replace_all (rx_key K) (wf_line K T) s = leftContext m @ a' # b' # t'"
    using l(1) by simp
  have s2: "s = leftContext m @ a # b # t" using s s'(1) by simp
  show ?thesis
    apply (rule disjI2)
    apply (rule exI[of _ "leftContext m"], rule exI[of _ a], rule exI[of _ b], rule exI[of _ t])
    apply (rule exI[of _ a'], rule exI[of _ b'], rule exI[of _ t'])
    apply (intro conjI)
    apply (fact s2 r s'(2) s'(3) l(2) l(3))+
    done
qed

text \<open>A match of a key before a text that begins with n and o is the same before another.\<close>

lemma rx_key_before_None:
  assumes "wf_key K" "x \<noteq> []" "lower a = CHR ''n''" "lower b = CHR ''o''"
    and "lower a' = CHR ''n''" "lower b' = CHR ''o''"
    and "rx_key K (x @ a # b # t) = None"
  shows "rx_key K (x @ a' # b' # t') = None"
proof (cases "length K \<le> length x")
  case True
  then have "rx_key K x = None"
    using assms(7) rx_key_before[OF assms(1,2,3,4), of t] by simp
  then show ?thesis using True rx_key_before[OF assms(1,2,5,6), of t'] by simp
next
  case False
  then show ?thesis using rx_key_before[OF assms(1,2,5,6), of t'] by simp
qed

lemma rx_key_before_Some:
  assumes "wf_key K" "x \<noteq> []" "lower a = CHR ''n''" "lower b = CHR ''o''"
    and "lower a' = CHR ''n''" "lower b' = CHR ''o''"
    and "rx_key K (x @ a # b # t) = Some (gs, y @ a # b # t)"
  shows "rx_key K (x @ a' # b' # t') = Some (gs, y @ a' # b' # t')"
proof (cases "length K \<le> length x")
  case True
  then have "map_option (\<lambda>(gs, r). (gs, r @ a # b # t)) (rx_key K x) = Some (gs, y @ a # b # t)"
    using assms(7) rx_key_before[OF assms(1,2,3,4), of t] by simp
  then obtain r0 where "rx_key K x = Some (gs, r0)" "r0 @ a # b # t = y @ a # b # t"
    by (auto split: prod.splits)
  then have "rx_key K x = Some (gs, y)" by simp
  then show ?thesis using True rx_key_before[OF assms(1,2,5,6), of t'] by simp
next
  case False
  then show ?thesis using assms(7) rx_key_before[OF assms(1,2,3,4), of t] by simp
qed

text \<open>No match of a key starts inside a match of a key.\<close>

lemma rx_key_inside_match:
  assumes "wf_key K" "wf_key K'" "rx_key K' s = Some (gs, r)" "0 < i" "i < length s - length r"
  shows "rx_key K (drop i s) = None"
proof (rule ccontr)
  assume "rx_key K (drop i s) \<noteq> None"
  then obtain gs' r' where m: "rx_key K (drop i s) = Some (gs', r')" by auto
  obtain a b t where d: "drop i s = a # b # t" "lower a = CHR ''n''" "lower b = CHR ''o''"
    using rx_key_start[OF assms(1) m] by blast
  let ?x = "take i s"
  have x: "?x \<noteq> []" using assms(4,5) by auto
  have s: "s = ?x @ a # b # t" using d(1) by (metis append_take_drop_id)
  have lx: "length ?x = i" using assms(5) by simp
  have "rx_key K' (?x @ a # b # t) = Some (gs, r)" using assms(3) s by simp
  then have "length K' \<le> length ?x \<and>
             map_option (\<lambda>(gs, r). (gs, r @ a # b # t)) (rx_key K' ?x) = Some (gs, r)"
    using rx_key_before[OF assms(2) x d(2,3), of t] by (auto split: if_splits)
  then obtain r0 where "r = r0 @ a # b # t" by (auto split: prod.splits)
  then have "length (a # b # t) \<le> length r" by simp
  moreover have "length (a # b # t) = length s - i" using d(1) by (metis length_drop)
  ultimately show False using assms(5) by simp
qed

text \<open>
  The two replacements one after the other are one pass over the text that writes the
  line of a key wherever one of the two patterns matches and copies every other
  character.
\<close>

lemma rewrite_keys_fuel_compose:
  assumes "\<forall>c \<in> set T. is_digit c"
  shows "length s \<le> n \<Longrightarrow>
         js_replace_all (rx_key ''NODE_VERSION:'') (wf_line ''NODE_VERSION:'' T)
           (js_replace_all (rx_key ''node-version:'') (wf_line ''node-version:'' T) s) =
         rewrite_keys_fuel n T s"
proof (induction n arbitrary: s)
  case 0
  then have "s = []" by simp
  then show ?case by (simp add: js_replace_all_def)
next
  case (Suc n)
  let ?K1 = "''node-version:''" and ?K2 = "''NODE_VERSION:''"
  let ?l1 = "wf_line ?K1 T" and ?l2 = "wf_line ?K2 T"
  let ?R1 = "js_replace_all (rx_key ?K1) ?l1" and ?R2 = "js_replace_all (rx_key ?K2) ?l2"
  have k1: "wf_key ?K1" and k2: "wf_key ?K2" and ne: "?K2 \<noteq> ?K1" by (simp_all add: wf_key_def)
  have d1: "CHR ''$'' \<notin> set ?l1" by (rule wf_line_plain[OF k1 assms])
  have d2: "CHR ''$'' \<notin> set ?l2" by (rule wf_line_plain[OF k2 assms])
  have w1: "''node-version: '' @ [CHR 0x27] @ T @ [CHR 0x27] @ z = ?l1 @ z" for z
    by (simp add: wf_line_def)
  have w2: "''NODE_VERSION: '' @ [CHR 0x27] @ T @ [CHR 0x27] @ z = ?l2 @ z" for z
    by (simp add: wf_line_def)
  show ?case
  proof (cases s)
    case Nil
    then show ?thesis by (simp add: js_replace_all_def)
  next
    case (Cons c cs)
    note s = this
    show ?thesis
    proof (cases "rx_key ?K1 s")
      case (Some a)
      then obtain gs r where m: "rx_key ?K1 s = Some (gs, r)" by (cases a) auto
      have "length r < length s" by (rule rx_key_shorter[OF k1 m])
      then have lr: "length r \<le> n" using Suc.prems by simp
      have inner: "?R1 s = ?l1 @ ?R1 r" by (rule js_replace_all_head[OF k1 m d1])
      have "\<forall>i < length ?l1. rx_key ?K2 (drop i ?l1 @ ?R1 r) = None"
      proof (intro allI impI)
        fix i assume i: "i < length ?l1"
        show "rx_key ?K2 (drop i ?l1 @ ?R1 r) = None"
        proof (cases i)
          case 0
          then show ?thesis using rx_key_other_line[OF k2 k1 ne, of T "?R1 r"] by simp
        next
          case (Suc j)
          then show ?thesis using rx_key_inside_line[OF k2 k1 assms, of i "?R1 r"] i by simp
        qed
      qed
      then have "?R2 (?l1 @ ?R1 r) = ?l1 @ ?R2 (?R1 r)"
        by (rule js_replace_all_skip_prefix[OF k2 d2])
      then have "?R2 (?R1 s) = ?l1 @ rewrite_keys_fuel n T r"
        using inner Suc.IH[OF lr] by simp
      moreover have "rewrite_keys_fuel (Suc n) T s = ?l1 @ rewrite_keys_fuel n T r"
        using m unfolding s rewrite_keys_fuel.simps rx_node_version_key w1 by simp
      ultimately show ?thesis by simp
    next
      case None
      note n1 = this
      show ?thesis
      proof (cases "rx_key ?K2 s")
        case (Some a)
        then obtain gs r where m: "rx_key ?K2 s = Some (gs, r)" by (cases a) auto
        have sh: "length r < length s" by (rule rx_key_shorter[OF k2 m])
        then have lr: "length r \<le> n" using Suc.prems by simp
        obtain u where u: "s = u @ r" using rx_key_suffix[OF m] by blast
        have lu: "length u = length s - length r" using u by simp
        have "\<forall>i < length u. rx_key ?K1 (drop i u @ r) = None"
        proof (intro allI impI)
          fix i assume i: "i < length u"
          then have e: "drop i u @ r = drop i s" using u by simp
          show "rx_key ?K1 (drop i u @ r) = None"
          proof (cases i)
            case 0
            then show ?thesis using n1 e by simp
          next
            case (Suc j)
            then show ?thesis using rx_key_inside_match[OF k1 k2 m, of i] i lu e by simp
          qed
        qed
        then have "?R1 (u @ r) = u @ ?R1 r" by (rule js_replace_all_skip_prefix[OF k1 d1])
        then have inner: "?R1 s = u @ ?R1 r" using u by simp
        have m': "rx_key ?K2 (u @ ?R1 r) = Some (gs, ?R1 r)"
        proof -
          from js_replace_all_shape[OF k1 assms, of r]
          consider "?R1 r = r"
            | x a b t a' b' t' where "r = x @ a # b # t" "?R1 r = x @ a' # b' # t'"
                "lower a = CHR ''n''" "lower b = CHR ''o''" "lower a' = CHR ''n''" "lower b' = CHR ''o''"
            by blast
          then show ?thesis
          proof cases
            case 1
            then show ?thesis using m u by simp
          next
            case 2
            have ux: "u @ x \<noteq> []" using lu sh by auto
            have "rx_key ?K2 ((u @ x) @ a # b # t) = Some (gs, x @ a # b # t)"
              using m u 2(1) by simp
            from rx_key_before_Some[OF k2 ux 2(3,4,5,6) this, of t']
            show ?thesis using 2(2) by simp
          qed
        qed
        have "?R2 (u @ ?R1 r) = ?l2 @ ?R2 (?R1 r)" by (rule js_replace_all_head[OF k2 m' d2])
        then have "?R2 (?R1 s) = ?l2 @ rewrite_keys_fuel n T r"
          using inner Suc.IH[OF lr] by simp
        moreover have "rewrite_keys_fuel (Suc n) T s = ?l2 @ rewrite_keys_fuel n T r"
          using m n1 unfolding s rewrite_keys_fuel.simps rx_node_version_key rx_node_env_key w2 by simp
        ultimately show ?thesis by simp
      next
        case None
        note n2 = this
        have lc: "length cs \<le> n" using Suc.prems s by simp
        have inner: "?R1 s = c # ?R1 cs"
          using js_replace_all_skip[OF k1 _ d1, of c cs] n1 s by simp
        have m': "rx_key ?K2 (c # ?R1 cs) = None"
        proof -
          from js_replace_all_shape[OF k1 assms, of cs]
          consider "?R1 cs = cs"
            | x a b t a' b' t' where "cs = x @ a # b # t" "?R1 cs = x @ a' # b' # t'"
                "lower a = CHR ''n''" "lower b = CHR ''o''" "lower a' = CHR ''n''" "lower b' = CHR ''o''"
            by blast
          then show ?thesis
          proof cases
            case 1
            then show ?thesis using n2 s by simp
          next
            case 2
            have cx: "c # x \<noteq> []" by simp
            have "rx_key ?K2 ((c # x) @ a # b # t) = None" using n2 s 2(1) by simp
            from rx_key_before_None[OF k2 cx 2(3,4,5,6) this, of t']
            show ?thesis using 2(2) by simp
          qed
        qed
        have "?R2 (c # ?R1 cs) = c # ?R2 (?R1 cs)" by (rule js_replace_all_skip[OF k2 m' d2])
        then have "?R2 (?R1 s) = c # rewrite_keys_fuel n T cs"
          using inner Suc.IH[OF lc] by simp
        moreover have "rewrite_keys_fuel (Suc n) T s = c # rewrite_keys_fuel n T cs"
          using n1 n2 unfolding s rewrite_keys_fuel.simps rx_node_version_key rx_node_env_key by simp
        ultimately show ?thesis by simp
      qed
    qed
  qed
qed

text \<open>The length of the text is fuel enough, and so is any greater number.\<close>

lemma rewrite_keys_fuel_enough:
  assumes "\<forall>c \<in> set T. is_digit c" "length s \<le> n"
  shows "rewrite_keys_fuel n T s = rewrite_keys T s"
  unfolding rewrite_keys_def
  using rewrite_keys_fuel_compose[OF assms(1), of s n]
    rewrite_keys_fuel_compose[OF assms(1), of s "length s"] assms(2) by simp


























section \<open>The theorems on concrete projects\<close>

text \<open>The majors 20, 20 and 22 give the target 20.\<close>

theorem generateReport_infers_majority_witness:
  "generateReport ex_platform ex_world_majority ''/app'' None = Inr ex_report_majority \<and>
   map majorVersion (versions ex_report_majority) = [20, 20, 22] \<and>
   targetVersion ex_report_majority = Some 20"
proof -
  have scan: "scanVersions ex_platform ex_world_majority ''/app'' = Inr (versions ex_report_majority)"
    by (simp add: ex_world_majority_def ex_platform_def ex_report_majority_def check_defs fs_defs
          rx_defs)
  have h: "generateReport ex_platform ex_world_majority ''/app'' None = Inr ex_report_majority"
    unfolding generateReport_def scan
    by (simp add: bindE_def ex_report_majority_def countVersions_def mostCommon_def)
  from generateReport_infers_majority [OF h] h show ?thesis
    by (simp add: ex_report_majority_def)
qed

text \<open>The backup of a Dockerfile rewritten from 20 to 22.\<close>

theorem backup_made_before_write_witness:
  "\<not> dryRun DEFAULT_OPTIONS \<and> backup DEFAULT_OPTIONS \<and>
   nodes ex_world_docker ''/app/Dockerfile'' = Some (File ''FROM node:20-slim\<newline>'') \<and>
   nodes (snd (updateVersionFile ex_platform ex_world_docker ex_record_docker 22 DEFAULT_OPTIONS))
     ''/app/Dockerfile.backup.1700000000000'' = Some (File ''FROM node:20-slim\<newline>'') \<and>
   nodes (snd (updateVersionFile ex_platform ex_world_docker ex_record_docker 22 DEFAULT_OPTIONS))
     ''/app/Dockerfile'' = Some (File ''FROM node:22-slim\<newline>'')"
proof -
  let ?u = "updateVersionFile ex_platform ex_world_docker ex_record_docker 22 DEFAULT_OPTIONS"
  let ?r = "\<lparr>UpdateResult.file = ''/app/Dockerfile'', relativePath = ''/app/Dockerfile'',
             oldVersion = JString ''20-slim'', newVersion = ''22-slim'', success = True,
             error = None, backedUp = Some True\<rparr>"
  have r: "fst ?u = Inr ?r"
    by (simp add: ex_defs update_defs fs_defs rx_defs Let_def)
  have h: "?u = (Inr ?r, snd ?u)" using r by (simp add: prod_eq_iff)
  have o: "\<not> dryRun DEFAULT_OPTIONS" "backup DEFAULT_OPTIONS" by (simp_all add: DEFAULT_OPTIONS_def)
  have s: "success ?r" by simp
  have t: "toString (clock ex_world_docker (ticks ex_world_docker)) = ''1700000000000''"
    by (simp add: ex_defs fs_defs rx_defs)
  have rd: "readFileSync ex_world_docker ''/app/Dockerfile'' = Inr ''FROM node:20-slim\<newline>''"
    by (simp add: ex_defs fs_defs)
  have f: "VersionInfo.file ex_record_docker = ''/app/Dockerfile''" by (simp add: ex_defs)
  have w: "nodes (snd ?u) ''/app/Dockerfile'' = Some (File ''FROM node:22-slim\<newline>'')"
    by (simp add: ex_defs update_defs fs_defs rx_defs Let_def)
  from backup_made_before_write [OF h o s] show ?thesis
    using o rd w unfolding f t by (auto simp: readFileSync_Inr)
qed



section \<open>Running the update twice\<close>

text \<open>
  C1. A Dockerfile with the line \<open>FROM node:20$1\<close>, updated to 22 with the default
  options. The suffix \<open>$1\<close> is part of the replacement text, where it stands for the
  first capture group, so the first run writes \<open>FROM node:2220\<close>. The second run scans
  the major 2220, rewrites the file again (its result comes from the write, with a
  backup) and leaves \<open>FROM node:22\<close>: the second run is not without effect and the
  file differs between the end of the first run and the end of the second.
\<close>

theorem second_run_rewrites_again:
  "scanVersions ex_platform ex_world_dollar ''/app'' =
     Inr [\<lparr>VersionInfo.file = ''/app/Dockerfile'', VersionInfo.relativePath = ''Dockerfile'',
           currentVersion = ''20'', fullVersion = ''20$1'', majorVersion = 20,
           fileType = ''dockerfile''\<rparr>] \<and>
   nodes (snd (updateAllVersions ex_platform ex_world_dollar ''/app'' 22 DEFAULT_OPTIONS))
     ''/app/Dockerfile'' = Some (File ''FROM node:2220\<newline>'') \<and>
   fst (updateAllVersions ex_platform
          (snd (updateAllVersions ex_platform ex_world_dollar ''/app'' 22 DEFAULT_OPTIONS))
          ''/app'' 22 DEFAULT_OPTIONS) =
     Inr [\<lparr>UpdateResult.file = ''/app/Dockerfile'', relativePath = ''/app/Dockerfile'',
           oldVersion = JString ''2220'', newVersion = ''22'', success = True, error = None,
           backedUp = Some True\<rparr>] \<and>
   nodes (snd (updateAllVersions ex_platform
                 (snd (updateAllVersions ex_platform ex_world_dollar ''/app'' 22 DEFAULT_OPTIONS))
                 ''/app'' 22 DEFAULT_OPTIONS))
     ''/app/Dockerfile'' = Some (File ''FROM node:22\<newline>'')"
  by (simp add: ex_defs update_defs check_defs fs_defs rx_defs)

section \<open>Records and failures on concrete projects\<close>

text \<open>
  A \<open>package.json\<close> whose \<open>engines.node\<close> is \<open>*\<close> gets a record, though its version
  text holds no integer; the major of the record is 0.
\<close>

theorem record_without_integer:
  "scanVersions ex_platform_json ex_world_star ''/app'' = Inr [ex_record_star] \<and>
   fullVersion ex_record_star = ''*'' \<and> first_integer_run ''*'' = [] \<and>
   majorVersion ex_record_star = 0"
  by (simp add: ex_defs check_defs fs_defs rx_defs first_integer_run_def)

theorem major_is_first_integer_run_witness:
  "scanVersions ex_platform_json ex_world_star ''/app'' = Inr [ex_record_star] \<and>
   ex_record_star \<in> set [ex_record_star] \<and>
   first_integer_run (fullVersion ex_record_star) = [] \<and>
   fileType ex_record_star = ''package.json'' \<and>
   majorVersion ex_record_star = parseInt (first_integer_run (fullVersion ex_record_star))"
proof -
  have h: "scanVersions ex_platform_json ex_world_star ''/app'' = Inr [ex_record_star]"
    by (simp add: ex_defs check_defs fs_defs rx_defs)
  have i: "ex_record_star \<in> set [ex_record_star]" by simp
  have e: "first_integer_run (fullVersion ex_record_star) = []"
    by (simp add: ex_defs first_integer_run_def rx_defs)
  from major_is_first_integer_run [OF h i] show ?thesis using h e by simp
qed

text \<open>
  A project without \<open>.nvmrc\<close>, with a Dockerfile of another image and a \<open>package.json\<close>
  that does not parse: the scan returns the one record of \<open>.tool-versions\<close>.
\<close>

theorem extraction_never_fatal_witness:
  "\<not> existsSync ex_world_partial ''/app/.nvmrc'' \<and>
   readFileSync ex_world_partial ''/app/Dockerfile'' = Inr ''FROM python:3.12\<newline>'' \<and>
   js_match rx_from ''FROM python:3.12\<newline>'' = None \<and>
   readFileSync ex_world_partial ''/app/package.json'' = Inr ''{ engines'' \<and>
   json_parse ex_platform ''{ engines'' = None \<and>
   \<not> existsSync ex_world_partial ''/app/docker-compose.yml'' \<and>
   \<not> existsSync ex_world_partial ''/app/.node-version'' \<and>
   readFileSync ex_world_partial ''/app/.tool-versions'' = Inr ''nodejs 22.1.0\<newline>'' \<and>
   scanVersions ex_platform ex_world_partial ''/app'' = Inr [ex_record_tool]"
proof -
  have h: "\<forall>name \<in> set [''.nvmrc'', ''Dockerfile'', ''docker-compose.yml'', ''.node-version'',
                          ''.tool-versions''].
             \<not> existsSync ex_world_partial (path_join ''/app'' name) \<or>
             (\<exists>raw. readFileSync ex_world_partial (path_join ''/app'' name) = Inr raw)"
    by (simp add: ex_defs fs_defs)
  have e: "scanVersions ex_platform ex_world_partial ''/app'' = Inr [ex_record_tool]"
    by (simp add: ex_defs check_defs fs_defs rx_defs)
  have m: "js_match rx_from ''FROM python:3.12\<newline>'' = None"
    by (simp add: rx_defs)
  from extraction_never_fatal [OF h, of ex_platform] show ?thesis
    using e m by (simp add: ex_defs fs_defs)
qed

text \<open>
  Three workflow files, the second of which cannot be read: the scan returns the record
  of the first and none of the third.
\<close>

theorem workflow_read_failure_abandons_loop_witness:
  "readdirSync ex_world_workflows ''/app/.github/workflows'' =
     Inr [''a.yml'', ''notes.txt'', ''b.yml'', ''c.yaml''] \<and>
   readFileSync ex_world_workflows ''/app/.github/workflows/a.yml'' = Inr ''node-version: 20\<newline>'' \<and>
   readFileSync ex_world_workflows ''/app/.github/workflows/b.yml'' = Inl EACCES \<and>
   readFileSync ex_world_workflows ''/app/.github/workflows/c.yaml'' = Inr ''node-version: 18\<newline>'' \<and>
   scanVersions ex_platform ex_world_workflows ''/app'' = Inr [ex_record_workflow_a]"
proof -
  have c: "checkNvmrc ex_world_workflows ''/app'' = Inr None"
    "checkPackageJson ex_platform ex_world_workflows ''/app'' = Inr None"
    "checkDockerfile ex_world_workflows ''/app'' = Inr None"
    "checkDockerCompose ex_world_workflows ''/app'' = Inr None"
    "checkNodeVersion ex_world_workflows ''/app'' = Inr None"
    "checkToolVersions ex_world_workflows ''/app'' = Inr None"
    by (simp_all add: ex_defs check_defs fs_defs)
  have d: "''/app/.github/workflows'' = path_join (path_join ''/app'' ''.github'') ''workflows''"
    by (simp add: fs_defs)
  have l: "readdirSync ex_world_workflows ''/app/.github/workflows'' =
             Inr [''a.yml'', ''notes.txt'', ''b.yml'', ''c.yaml'']"
    by (simp add: ex_defs fs_defs)
  have f: "filter (\<lambda>f. endsWith f ''.yml'' \<or> endsWith f ''.yaml'')
             [''a.yml'', ''notes.txt'', ''b.yml'', ''c.yaml''] = [''a.yml''] @ ''b.yml'' # [''c.yaml'']"
    by (simp add: rx_defs)
  have b: "\<forall>g \<in> set [''a.yml''].
             \<exists>c. readFileSync ex_world_workflows (path_join ''/app/.github/workflows'' g) = Inr c"
    by (simp add: ex_defs fs_defs)
  have x: "readFileSync ex_world_workflows (path_join ''/app/.github/workflows'' ''b.yml'') = Inl EACCES"
    by (simp add: ex_defs fs_defs)
  have w: "workflowLoop ex_world_workflows ''/app/.github/workflows'' [''a.yml''] [] =
             [ex_record_workflow_a]"
    by (simp add: ex_defs check_defs fs_defs rx_defs)
  from workflow_read_failure_abandons_loop [OF c d l f b x] show ?thesis
    using l w by (simp add: ex_defs fs_defs map_filter_simps)
qed

section \<open>Updates on concrete projects\<close>

text \<open>
  The Dockerfile, second of three records, cannot be written: three results, the second
  a failure with the error of the write, the first and the third successes.
\<close>

theorem failure_is_isolated_witness:
  "scanVersions ex_platform ex_world_locked ''/app'' = Inr ex_records_locked \<and>
   wdeny ex_world_locked ''/app/Dockerfile'' \<and>
   fst (updateAllVersions ex_platform ex_world_locked ''/app'' 22 DEFAULT_OPTIONS) =
     Inr ex_results_locked"
proof -
  have h: "scanVersions ex_platform ex_world_locked ''/app'' = Inr ex_records_locked"
    by (simp add: ex_defs check_defs fs_defs rx_defs)
  have r: "fst (updateAllVersions ex_platform ex_world_locked ''/app'' 22 DEFAULT_OPTIONS) =
             Inr ex_results_locked"
    unfolding updateAllVersions_def h
    by (simp add: ex_defs update_defs fs_defs rx_defs Let_def)
  from failure_is_isolated [OF h, of 22 DEFAULT_OPTIONS] show ?thesis
    using h r by (simp add: ex_defs)
qed

text \<open>A dry run to 22: two records to update, one at the target, no file touched.\<close>

theorem dry_run_writes_nothing_witness:
  "dryRun \<lparr>dryRun = True, backup = True\<rparr> \<and>
   scanVersions ex_platform ex_world_majority ''/app'' = Inr (versions ex_report_majority) \<and>
   fst (updateAllVersions ex_platform ex_world_majority ''/app'' 22 \<lparr>dryRun = True, backup = True\<rparr>) =
     Inr ex_results_dry \<and>
   snd (updateAllVersions ex_platform ex_world_majority ''/app'' 22 \<lparr>dryRun = True, backup = True\<rparr>) =
     ex_world_majority"
proof -
  have d: "dryRun \<lparr>dryRun = True, backup = True\<rparr>" by simp
  have h: "scanVersions ex_platform ex_world_majority ''/app'' = Inr (versions ex_report_majority)"
    by (simp add: ex_defs check_defs fs_defs rx_defs)
  have r: "fst (updateAllVersions ex_platform ex_world_majority ''/app'' 22
                  \<lparr>dryRun = True, backup = True\<rparr>) = Inr ex_results_dry"
    unfolding updateAllVersions_def h
    by (simp add: ex_defs update_defs fs_defs rx_defs Let_def)
  from dry_run_writes_nothing [OF d, of ex_platform ex_world_majority "''/app''" 22] show ?thesis
    using h r by simp
qed

section \<open>Workflow files with both keys\<close>



section \<open>Reads outside a try\<close>

text \<open>
  C7. A project in which \<open>.nvmrc\<close> is a directory: the file exists, the read of
  \<open>checkNvmrc\<close> throws \<open>EISDIR\<close> outside any \<open>try\<close>, and the scan ends with that error
  instead of returning records. \<open>checkPackageJson\<close>, which reads inside its \<open>try\<close>,
  passes over a \<open>package.json\<close> that is a directory.
\<close>

theorem unreadable_file_fails_scan:
  "existsSync ex_world_directory ''/app/.nvmrc'' \<and>
   readFileSync ex_world_directory ''/app/.nvmrc'' = Inl EISDIR \<and>
   checkNvmrc ex_world_directory ''/app'' = Inl EISDIR \<and>
   scanVersions ex_platform ex_world_directory ''/app'' = Inl EISDIR \<and>
   existsSync ex_world_directory ''/app/package.json'' \<and>
   readFileSync ex_world_directory ''/app/package.json'' = Inl EISDIR \<and>
   checkPackageJson ex_platform ex_world_directory ''/app'' = Inr None"
  by (simp add: ex_defs check_defs fs_defs)

text \<open>
  C2. A project with \<open>.nvmrc\<close>, \<open>Dockerfile\<close> and \<open>.tool-versions\<close> at 20 is scanned, and
  the Dockerfile is removed before the loop of the update reaches it. The read at the
  head of \<open>updateDockerfile\<close> throws outside its \<open>try\<close>: the loop ends with the error and
  without a result for any record, \<open>.nvmrc\<close> is rewritten already and \<open>.tool-versions\<close> is
  never processed. \<open>updatePackageJson\<close>, which reads inside its \<open>try\<close>, returns a failed
  result for a file that is missing.
\<close>

theorem read_failure_aborts_pass:
  "scanVersions ex_platform ex_world_scanned ''/app'' = Inr ex_records_locked \<and>
   readFileSync ex_world_removed ''/app/Dockerfile'' = Inl ENOENT \<and>
   fst (updateLoop ex_platform ex_world_removed ex_records_locked 22 DEFAULT_OPTIONS []) = Inl ENOENT \<and>
   readFileSync (snd (updateLoop ex_platform ex_world_removed ex_records_locked 22 DEFAULT_OPTIONS []))
     ''/app/.nvmrc'' = Inr ''22\<newline>'' \<and>
   readFileSync (snd (updateLoop ex_platform ex_world_removed ex_records_locked 22 DEFAULT_OPTIONS []))
     ''/app/.tool-versions'' = Inr ''nodejs 20.11.0\<newline>'' \<and>
   readFileSync ex_world_removed ''/app/package.json'' = Inl ENOENT \<and>
   updatePackageJson ex_platform ex_world_removed ''/app/package.json'' 22 DEFAULT_OPTIONS =
     (Inr \<lparr>UpdateResult.file = ''/app/package.json'', relativePath = ''/app/package.json'',
           oldVersion = JString [], newVersion = ''>=22.0.0'', success = False,
           error = Some ENOENT, backedUp = None\<rparr>, ex_world_removed)"
proof -
  have sc: "scanVersions ex_platform ex_world_scanned ''/app'' = Inr ex_records_locked"
    by (simp add: ex_defs check_defs fs_defs rx_defs)
  have rd: "readFileSync ex_world_removed ''/app/Dockerfile'' = Inl ENOENT"
    "readFileSync ex_world_removed ''/app/package.json'' = Inl ENOENT"
    by (simp_all add: ex_defs fs_defs)
  have f: "fst (updateLoop ex_platform ex_world_removed ex_records_locked 22 DEFAULT_OPTIONS []) = Inl ENOENT"
    by (simp add: ex_defs update_defs fs_defs rx_defs Let_def)
  have a: "readFileSync (snd (updateLoop ex_platform ex_world_removed ex_records_locked 22 DEFAULT_OPTIONS []))
     ''/app/.nvmrc'' = Inr ''22\<newline>''"
    by (simp add: ex_defs update_defs fs_defs rx_defs Let_def)
  have b: "readFileSync (snd (updateLoop ex_platform ex_world_removed ex_records_locked 22 DEFAULT_OPTIONS []))
     ''/app/.tool-versions'' = Inr ''nodejs 20.11.0\<newline>''"
    by (simp add: ex_defs update_defs fs_defs rx_defs Let_def)
  have p: "updatePackageJson ex_platform ex_world_removed ''/app/package.json'' 22 DEFAULT_OPTIONS =
     (Inr \<lparr>UpdateResult.file = ''/app/package.json'', relativePath = ''/app/package.json'',
           oldVersion = JString [], newVersion = ''>=22.0.0'', success = False,
           error = Some ENOENT, backedUp = None\<rparr>, ex_world_removed)"
    unfolding updatePackageJson_def Let_def rd(2)
    by (simp add: ex_platform_def result_failed_def rx_defs)
  show ?thesis using sc rd f a b p by simp
qed

end
